theory Spec2Isabelle
  imports Complex_Main "HOL-Library.Multiset"
begin

section \<open>Evaluation utilities of the hierarchical recommender (src/utils.py)\<close>

text \<open>
  The development embeds the splitting and ranking functions of \<^verbatim>\<open>src/utils.py\<close>.
  Numpy rows are lists and matrices lists of rows. The scores and reciprocal ranks of the
  ranking metrics are idealised as reals; the split fractions are double-precision floats
  with their rounding, since the anchors of the splits depend on it. What Python, numpy or
  pandas raise is a value of type \<open>error\<close>. Library routines whose outcome
  the source does not fix (the seeded draw of \<^verbatim>\<open>np.random.choice\<close>, the tie order of
  \<^verbatim>\<open>np.argsort\<close> and of \<^verbatim>\<open>sort_values\<close>, the parser behind \<^verbatim>\<open>pd.to_datetime\<close>) are
  parameters of the functions that call them.
\<close>

datatype error = ValueError | IndexError | ZeroDivisionError | OverflowError | ParserError

subsection \<open>Slices and index arrays\<close>

text \<open>
  A Python slice bound: a negative bound counts from the end, and every bound is clamped
  into \<open>0..n\<close>.
\<close>

definition slice_bound :: "nat \<Rightarrow> int \<Rightarrow> nat" where
  "slice_bound n i = (if i < 0 then nat (int n + i) else min n (nat i))"

text \<open>\<^verbatim>\<open>xs[:stop]\<close>, \<^verbatim>\<open>xs[start:]\<close> and \<^verbatim>\<open>xs[start:stop]\<close> (also \<^verbatim>\<open>df.iloc\<close> with these slices).\<close>

definition slice_to :: "'a list \<Rightarrow> int \<Rightarrow> 'a list" where
  "slice_to xs stop = take (slice_bound (length xs) stop) xs"

definition slice_from :: "'a list \<Rightarrow> int \<Rightarrow> 'a list" where
  "slice_from xs start = drop (slice_bound (length xs) start) xs"

definition slice_between :: "'a list \<Rightarrow> int \<Rightarrow> int \<Rightarrow> 'a list" where
  "slice_between xs start stop =
     drop (slice_bound (length xs) start) (take (slice_bound (length xs) stop) xs)"

text \<open>\<^verbatim>\<open>np.nonzero(row)[0]\<close>: the positions of the nonzero entries, ascending.\<close>

definition nonzero :: "'a::zero list \<Rightarrow> nat list" where
  "nonzero row = filter (\<lambda>i. row ! i \<noteq> 0) [0..<length row]"

text \<open>
  Python's builtin \<^verbatim>\<open>any\<close> on an array of positions: true when some element is truthy,
  that is, when some position is not 0.
\<close>

definition any_py :: "nat list \<Rightarrow> bool" where
  "any_py idx = list_ex (\<lambda>i. i \<noteq> 0) idx"

subsection \<open>Leave-one-out masking: \<^verbatim>\<open>set_to_zero\<close>\<close>

text \<open>
  Rows are arrays the caller owns, so they live in a store, and \<^verbatim>\<open>set_to_zero\<close> receives
  and returns a reference. \<open>choice seed idx\<close> is what \<^verbatim>\<open>np.random.choice(idx)\<close> returns
  right after \<^verbatim>\<open>np.random.seed(seed)\<close>; numpy draws it among the elements of \<open>idx\<close>
  (\<open>choice_ok\<close>). \<^verbatim>\<open>np.random.seed\<close> raises ValueError for a seed outside \<open>0 .. 2^32 - 1\<close>.
\<close>

type_synonym store = "nat \<Rightarrow> int list"

definition choice_ok :: "(int \<Rightarrow> nat list \<Rightarrow> nat) \<Rightarrow> bool" where
  "choice_ok choice = (\<forall>seed idx. idx \<noteq> [] \<longrightarrow> choice seed idx \<in> set idx)"

definition set_to_zero ::
  "(int \<Rightarrow> nat list \<Rightarrow> nat) \<Rightarrow> store \<Rightarrow> nat \<Rightarrow> int \<Rightarrow> store \<times> (error + nat)" where
  "set_to_zero choice s row seed =
     (let zero_idx = nonzero (s row) in
      if any_py zero_idx then
        if 0 \<le> seed \<and> seed < 2 ^ 32
        then (s(row := (s row)[choice seed zero_idx := 0]), Inr row)
        else (s, Inl ValueError)
      else (s, Inr row))"

subsection \<open>Weighted MRR\<close>

definition weighted_mrr :: "real \<Rightarrow> real \<Rightarrow> real \<Rightarrow> real list \<Rightarrow> real \<times> real \<times> real" where
  "weighted_mrr mrr_items mrr_tags mrr_categories lambdas =
     (0.5 * mrr_items, 0.2 * mrr_tags, 0.3 * mrr_categories)"

subsection \<open>Ranking: \<^verbatim>\<open>np.argsort\<close> and masked scores\<close>

text \<open>
  \<^verbatim>\<open>np.argsort\<close> returns the positions of a row in ascending order of their values. Its
  default sort does not fix the order of equal values, so the ranking functions take it as
  a parameter; \<open>argsort_ok\<close> is what numpy guarantees of it. \<open>argsort_stable\<close> is the
  instance that keeps equal values in position order, used to run the functions on
  concrete rows.
\<close>

definition argsort_ok :: "(real list \<Rightarrow> nat list) \<Rightarrow> bool" where
  "argsort_ok argsort =
     (\<forall>xs. mset (argsort xs) = mset [0..<length xs] \<and> sorted (map (\<lambda>i. xs ! i) (argsort xs)))"

definition argsort_stable :: "real list \<Rightarrow> nat list" where
  "argsort_stable xs = sort_key (\<lambda>i. xs ! i) [0..<length xs]"

text \<open>
  \<^verbatim>\<open>scores * mask\<close> for a real row and a boolean row of the same length: True counts as 1,
  False as 0.
\<close>

definition mul_mask :: "real list \<Rightarrow> bool list \<Rightarrow> real list" where
  "mul_mask scores keep = map2 (\<lambda>x b. x * (if b then 1 else 0)) scores keep"

subsection \<open>The candidate columns of \<^verbatim>\<open>get_precision\<close>\<close>

text \<open>
  The three assignments of the loop body of \<^verbatim>\<open>get_precision\<close> that build a user's ranked
  candidates (lines 153 to 155), under the names the source gives them. Rows of different
  lengths make the elementwise product raise ValueError.
\<close>

definition training_columns :: "real list \<Rightarrow> int list \<Rightarrow> nat list" where
  "training_columns pred_y_ui train_x_ui =
     nonzero (mul_mask pred_y_ui (map (\<lambda>t. t \<noteq> 0) train_x_ui))"

definition sorted_scores :: "(real list \<Rightarrow> nat list) \<Rightarrow> real list \<Rightarrow> int list \<Rightarrow> nat list" where
  "sorted_scores argsort pred_y_ui train_x_ui =
     rev (argsort (mul_mask pred_y_ui (map (\<lambda>t. t = 0) train_x_ui)))"

definition recommended_columns ::
  "(real list \<Rightarrow> nat list) \<Rightarrow> real list \<Rightarrow> int list \<Rightarrow> error + nat list" where
  "recommended_columns argsort pred_y_ui train_x_ui =
     (if length pred_y_ui \<noteq> length train_x_ui then Inl ValueError
      else Inr (filter (\<lambda>col_index. col_index \<notin> set (training_columns pred_y_ui train_x_ui))
                  (sorted_scores argsort pred_y_ui train_x_ui)))"

subsection \<open>Reciprocal rank: \<^verbatim>\<open>_mrr_func\<close> and \<^verbatim>\<open>get_taxonomy_level_mrr\<close>\<close>

text \<open>
  The loop of \<^verbatim>\<open>_mrr_func\<close> over \<^verbatim>\<open>enumerate(user_top_k_recommendations)\<close>, with \<open>rank\<close>
  the running position. Reading \<^verbatim>\<open>user_testset[r]\<close> past the end of the row raises
  IndexError.
\<close>

fun mrr_scan :: "nat \<Rightarrow> nat list \<Rightarrow> int list \<Rightarrow> error + real" where
  "mrr_scan rank [] user_testset = Inr 0"
| "mrr_scan rank (r # rest) user_testset =
     (if r < length user_testset then
        if user_testset ! r = 1 then Inr (1 / (real rank + 1))
        else mrr_scan (rank + 1) rest user_testset
      else Inl IndexError)"

definition mrr_func :: "nat list \<Rightarrow> int list \<Rightarrow> error + real" where
  "mrr_func user_top_k_recommendations user_testset =
     mrr_scan 0 user_top_k_recommendations user_testset"

text \<open>
  \<^verbatim>\<open>np.argsort(predictions * (train == 0), axis=1)[:,::-1][:,:k]\<close>, row by row. The product
  needs matrices of one shape; numpy raises ValueError for shapes it cannot broadcast, and
  the embedding does so for every pair of different shapes (broadcasting a smaller matrix
  is outside it).
\<close>

definition top_k_recommendations ::
  "(real list \<Rightarrow> nat list) \<Rightarrow> real list list \<Rightarrow> int list list \<Rightarrow> int \<Rightarrow> nat list list" where
  "top_k_recommendations argsort predictions train k =
     map2 (\<lambda>p t. slice_to (rev (argsort (mul_mask p (map (\<lambda>x. x = 0) t)))) k) predictions train"

text \<open>The loop \<^verbatim>\<open>for top_k, test in zip(...): mrr += _mrr_func(top_k, test)\<close>.\<close>

fun mrr_sum :: "real \<Rightarrow> (nat list \<times> int list) list \<Rightarrow> error + real" where
  "mrr_sum mrr [] = Inr mrr"
| "mrr_sum mrr ((top_k, test) # rest) =
     (case mrr_func top_k test of
        Inl e \<Rightarrow> Inl e
      | Inr v \<Rightarrow> mrr_sum (mrr + v) rest)"

definition get_taxonomy_level_mrr ::
  "(real list \<Rightarrow> nat list) \<Rightarrow> real list list \<Rightarrow> int list list \<Rightarrow> int list list \<Rightarrow> int
     \<Rightarrow> error + real" where
  "get_taxonomy_level_mrr argsort predictions train test k =
     (if map length train \<noteq> map length predictions then Inl ValueError
      else case mrr_sum 0 (zip (top_k_recommendations argsort predictions train k) test) of
             Inl e \<Rightarrow> Inl e
           | Inr mrr \<Rightarrow>
               if length predictions = 0 then Inl ZeroDivisionError
               else Inr (mrr / real (length predictions)))"

text \<open>
  The specification's reading of the same two operations, written from its words, for
  comparison with the code. \<open>spec_mrr_single\<close>: the first position whose item is marked
  relevant yields \<open>1 / (rank + 1)\<close>, and 0 if there is none. \<open>spec_evaluate_mrr\<close>: for each
  row, rank the columns with \<open>train = 0\<close> descending by score, take the top k, apply
  \<open>spec_mrr_single\<close>, and divide the sum by the number of rows.
\<close>

definition spec_mrr_single :: "nat list \<Rightarrow> int list \<Rightarrow> real" where
  "spec_mrr_single top_k test_row =
     (if list_ex (\<lambda>r. test_row ! r = 1) top_k
      then 1 / (real (length (takeWhile (\<lambda>r. test_row ! r \<noteq> 1) top_k)) + 1)
      else 0)"

definition spec_evaluate_mrr ::
  "(real list \<Rightarrow> nat list) \<Rightarrow> real list list \<Rightarrow> int list list \<Rightarrow> int list list \<Rightarrow> nat \<Rightarrow> real" where
  "spec_evaluate_mrr argsort predictions train test k =
     sum_list (map (\<lambda>(p, t, te).
         spec_mrr_single (take k (filter (\<lambda>c. t ! c = 0) (rev (argsort p)))) te)
       (zip predictions (zip train test))) / real (length predictions)"

subsection \<open>Python floats\<close>

text \<open>
  A Python float is an IEEE 754 double: a finite value, an infinity or NaN. Every
  arithmetic result is the exact result rounded to the nearest double, ties to the even
  significand. \<open>binade x\<close> is the exponent of the binade of \<open>x\<close>, at least the smallest
  normal exponent; the doubles of that binade are the multiples of \<open>2 powi (binade x - 52)\<close>.
  A rounded magnitude of \<open>2 ^ 1024\<close> or more overflows to an infinity. The sign of a zero
  is not kept: \<^verbatim>\<open>int\<close> and the slices treat both zeros alike.
\<close>

datatype pyfloat = Finite real | PInf | NInf | NaN

definition round_half_even :: "real \<Rightarrow> int" where
  "round_half_even y =
     (if y - of_int \<lfloor>y\<rfloor> < 1 / 2 then \<lfloor>y\<rfloor>
      else if 1 / 2 < y - of_int \<lfloor>y\<rfloor> then \<lfloor>y\<rfloor> + 1
      else if even \<lfloor>y\<rfloor> then \<lfloor>y\<rfloor> else \<lfloor>y\<rfloor> + 1)"

definition binade :: "real \<Rightarrow> int" where
  "binade x = max \<lfloor>log 2 \<bar>x\<bar>\<rfloor> (- 1022)"

definition nearest_double :: "real \<Rightarrow> real" where
  "nearest_double x =
     2 powi (binade x - 52) * of_int (round_half_even (x / 2 powi (binade x - 52)))"

definition round_double :: "real \<Rightarrow> pyfloat" where
  "round_double x =
     (if 2 ^ 1024 \<le> nearest_double x then PInf
      else if nearest_double x \<le> - (2 ^ 1024) then NInf
      else Finite (nearest_double x))"

definition is_negative :: "pyfloat \<Rightarrow> bool" where
  "is_negative a = (case a of Finite x \<Rightarrow> x < 0 | NInf \<Rightarrow> True | _ \<Rightarrow> False)"

text \<open>
  \<^verbatim>\<open>a * b\<close> and \<^verbatim>\<open>a + b\<close> on floats. With an infinity or NaN among the operands the result
  is NaN for a NaN operand, for infinity times zero and for the sum of opposite
  infinities, and the infinity of the right sign otherwise.
\<close>

definition fmul :: "pyfloat \<Rightarrow> pyfloat \<Rightarrow> pyfloat" where
  "fmul a b =
     (case (a, b) of
        (Finite x, Finite y) \<Rightarrow> round_double (x * y)
      | _ \<Rightarrow>
          if a = NaN \<or> b = NaN \<or> a = Finite 0 \<or> b = Finite 0 then NaN
          else if is_negative a = is_negative b then PInf else NInf)"

definition fadd :: "pyfloat \<Rightarrow> pyfloat \<Rightarrow> pyfloat" where
  "fadd a b =
     (case (a, b) of
        (Finite x, Finite y) \<Rightarrow> round_double (x + y)
      | _ \<Rightarrow>
          if a = NaN \<or> b = NaN \<or> (a = PInf \<and> b = NInf) \<or> (a = NInf \<and> b = PInf) then NaN
          else if a = PInf \<or> b = PInf then PInf else NInf)"

text \<open>
  \<^verbatim>\<open>int(x)\<close> on a float truncates towards zero; it raises OverflowError on an infinity and
  ValueError on NaN.
\<close>

definition py_int :: "pyfloat \<Rightarrow> error + int" where
  "py_int a =
     (case a of
        Finite x \<Rightarrow> Inr (if 0 \<le> x then \<lfloor>x\<rfloor> else \<lceil>x\<rceil>)
      | PInf \<Rightarrow> Inl OverflowError
      | NInf \<Rightarrow> Inl OverflowError
      | NaN \<Rightarrow> Inl ValueError)"

text \<open>
  \<^verbatim>\<open>int(n * fraction)\<close> for the row count \<open>n\<close>, a Python integer, and a float: the
  integer is converted to the nearest double first (OverflowError when it is too large
  for a double), then multiplied, then truncated.
\<close>

definition anchor :: "nat \<Rightarrow> pyfloat \<Rightarrow> error + int" where
  "anchor n fraction =
     (case round_double (real n) of
        Finite x \<Rightarrow> py_int (fmul (Finite x) fraction)
      | _ \<Rightarrow> Inl OverflowError)"

subsection \<open>Time-based splits: \<^verbatim>\<open>two_way_split\<close> and \<^verbatim>\<open>three_way_split\<close>\<close>

text \<open>
  A table is a list of rows; a row is its timestamp cell and the rest of its columns. A
  cell is either still raw (a string or a number read from a file) or already a datetime,
  an instant. \<^verbatim>\<open>pd.to_datetime\<close> converts the whole column or raises; \<open>parse\<close> is its
  parser for one raw value. The assignment \<^verbatim>\<open>df[timestamp_col] = pd.to_datetime(...)\<close> writes
  into the table the caller passed, so both functions return the caller's table after the
  call next to their result; an error of \<^verbatim>\<open>int\<close> comes after that assignment.
  \<^verbatim>\<open>sort_values\<close> is a parameter as \<^verbatim>\<open>np.argsort\<close> is: \<open>sort_ok\<close> is what pandas guarantees
  of it.
\<close>

datatype 'r stamp = Raw 'r | Datetime int

fun to_datetime :: "('r \<Rightarrow> int option) \<Rightarrow> ('r stamp \<times> 'a) list \<Rightarrow> (int \<times> 'a) list option" where
  "to_datetime parse [] = Some []"
| "to_datetime parse ((Datetime t, a) # rows) =
     (case to_datetime parse rows of None \<Rightarrow> None | Some rs \<Rightarrow> Some ((t, a) # rs))"
| "to_datetime parse ((Raw r, a) # rows) =
     (case parse r of
        None \<Rightarrow> None
      | Some t \<Rightarrow> (case to_datetime parse rows of None \<Rightarrow> None | Some rs \<Rightarrow> Some ((t, a) # rs)))"

definition datetime_column :: "(int \<times> 'a) list \<Rightarrow> ('r stamp \<times> 'a) list" where
  "datetime_column rows = map (\<lambda>(t, a). (Datetime t, a)) rows"

definition sort_ok :: "((int \<times> 'a) list \<Rightarrow> (int \<times> 'a) list) \<Rightarrow> bool" where
  "sort_ok sort_values =
     (\<forall>rows. mset (sort_values rows) = mset rows \<and> sorted (map fst (sort_values rows)))"

definition three_way_split ::
  "('r \<Rightarrow> int option) \<Rightarrow> ((int \<times> 'a) list \<Rightarrow> (int \<times> 'a) list) \<Rightarrow> ('r stamp \<times> 'a) list
     \<Rightarrow> pyfloat \<times> pyfloat \<times> pyfloat
     \<Rightarrow> ('r stamp \<times> 'a) list \<times> (error + (int \<times> 'a) list \<times> (int \<times> 'a) list \<times> (int \<times> 'a) list)" where
  "three_way_split parse sort_values df ratio =
     (case ratio of (train_frac, val_frac, test_frac) \<Rightarrow>
        (case to_datetime parse df of
           None \<Rightarrow> (df, Inl ParserError)
         | Some converted \<Rightarrow>
             let sorted_df = sort_values converted in
             (datetime_column converted,
              case anchor (length sorted_df) train_frac of
                Inl e \<Rightarrow> Inl e
              | Inr anchor_train \<Rightarrow>
                  (case anchor (length sorted_df) (fadd val_frac train_frac) of
                     Inl e \<Rightarrow> Inl e
                   | Inr anchor_val \<Rightarrow>
                       Inr (slice_to sorted_df anchor_train,
                            slice_between sorted_df anchor_train anchor_val,
                            slice_from sorted_df anchor_val)))))"

definition two_way_split ::
  "('r \<Rightarrow> int option) \<Rightarrow> ((int \<times> 'a) list \<Rightarrow> (int \<times> 'a) list) \<Rightarrow> ('r stamp \<times> 'a) list
     \<Rightarrow> pyfloat
     \<Rightarrow> ('r stamp \<times> 'a) list \<times> (error + (int \<times> 'a) list \<times> (int \<times> 'a) list)" where
  "two_way_split parse sort_values df train_frac =
     (case to_datetime parse df of
        None \<Rightarrow> (df, Inl ParserError)
      | Some converted \<Rightarrow>
          let sorted_df = sort_values converted in
          (datetime_column converted,
           case anchor (length sorted_df) train_frac of
             Inl e \<Rightarrow> Inl e
           | Inr anchor_train \<Rightarrow>
               Inr (slice_to sorted_df anchor_train, slice_from sorted_df anchor_train)))"

section \<open>Properties\<close>

subsection \<open>Index arrays\<close>

lemma set_nonzero: "set (nonzero row) = {i. i < length row \<and> row ! i \<noteq> 0}"
  by (auto simp: nonzero_def)

lemma nonzero_in_range: "i \<in> set (nonzero row) \<Longrightarrow> i < length row \<and> row ! i \<noteq> 0"
  by (simp add: set_nonzero)

lemma any_py_nonempty: "any_py idx \<Longrightarrow> idx \<noteq> []"
  by (auto simp: any_py_def list_ex_iff)

lemma any_py_iff: "any_py idx \<longleftrightarrow> (\<exists>i \<in> set idx. 0 < i)"
  by (auto simp: any_py_def list_ex_iff)

subsection \<open>\<^verbatim>\<open>weighted_mrr\<close>\<close>

text \<open>
  Claim C1. For all real inputs and every \<open>lambdas\<close>, \<^verbatim>\<open>weighted_mrr\<close> returns the triple
  of the three weighted terms, half of the item MRR, a fifth of the tag MRR and three
  tenths of the category MRR, not their sum; the weights are the constants 0.5, 0.2 and
  0.3 whatever \<open>lambdas\<close> is, so the result is the one the default \<open>lambdas\<close> gives.
\<close>

theorem weighted_mrr_triple:
  "weighted_mrr mrr_items mrr_tags mrr_categories lambdas =
     (mrr_items / 2, mrr_tags / 5, 3 * mrr_categories / 10) \<and>
   weighted_mrr mrr_items mrr_tags mrr_categories lambdas =
     weighted_mrr mrr_items mrr_tags mrr_categories [0.5, 0.2, 0.3]"
  by (simp add: weighted_mrr_def)

subsection \<open>\<^verbatim>\<open>set_to_zero\<close>\<close>

text \<open>
  What a call can do to the store: nothing, or overwrite one nonzero entry of the row it
  was given with 0.
\<close>

lemma set_to_zero_cases:
  assumes "choice_ok choice"
  shows "fst (set_to_zero choice s a seed) = s \<or>
         (\<exists>j. j < length (s a) \<and> s a ! j \<noteq> 0 \<and>
              fst (set_to_zero choice s a seed) = s(a := (s a)[j := 0]))"
proof (cases "any_py (nonzero (s a)) \<and> 0 \<le> seed \<and> seed < 2 ^ 32")
  case True
  then have "nonzero (s a) \<noteq> []" by (simp add: any_py_nonempty)
  with assms have "choice seed (nonzero (s a)) \<in> set (nonzero (s a))"
    by (simp add: choice_ok_def)
  then have "choice seed (nonzero (s a)) < length (s a) \<and> s a ! choice seed (nonzero (s a)) \<noteq> 0"
    by (rule nonzero_in_range)
  moreover from True have "fst (set_to_zero choice s a seed) =
      s(a := (s a)[choice seed (nonzero (s a)) := 0])"
    by (simp add: set_to_zero_def)
  ultimately show ?thesis by blast
next
  case False
  then have "fst (set_to_zero choice s a seed) = s"
    by (auto simp: set_to_zero_def Let_def)
  then show ?thesis by simp
qed

lemma set_to_zero_result:
  "snd (set_to_zero choice s a seed) = Inr a \<or> snd (set_to_zero choice s a seed) = Inl ValueError"
  by (simp add: set_to_zero_def Let_def)

lemma update_diff_card: "card {i. i < length xs \<and> xs[j := v] ! i \<noteq> xs ! i} \<le> 1"
proof -
  have "{i. i < length xs \<and> xs[j := v] ! i \<noteq> xs ! i} \<subseteq> {j}"
    using nth_list_update_neq by fastforce
  then have "card {i. i < length xs \<and> xs[j := v] ! i \<noteq> xs ! i} \<le> card {j}"
    by (intro card_mono) auto
  then show ?thesis by simp
qed

lemma choice_hd_ok: "choice_ok (\<lambda>seed idx. hd idx)"
  by (simp add: choice_ok_def)

text \<open>
  A row whose one nonzero entry is in a column other than 0 is masked to the all-zero
  row, for every seed numpy accepts.
\<close>

lemma set_to_zero_single_entry:
  assumes ok: "choice_ok choice" and seed: "0 \<le> seed" "seed < 2 ^ 32"
    and one: "nonzero (s a) = [j]" and j: "0 < j"
  shows "set_to_zero choice s a seed = (s(a := (s a)[j := 0]), Inr a)"
    and "nonzero ((s a)[j := 0]) = []"
proof -
  from one j have any: "any_py (nonzero (s a))" by (simp add: any_py_def)
  from ok have "choice seed [j] \<in> set [j]" unfolding choice_ok_def by blast
  with one have c: "choice seed (nonzero (s a)) = j" by simp
  from any seed c show "set_to_zero choice s a seed = (s(a := (s a)[j := 0]), Inr a)"
    by (simp add: set_to_zero_def)
  from one have "set (nonzero (s a)) = {j}" by simp
  then have only: "{i. i < length (s a) \<and> s a ! i \<noteq> 0} = {j}" by (simp add: set_nonzero)
  have "\<forall>i. i \<notin> set (nonzero ((s a)[j := 0]))"
  proof (intro allI notI)
    fix i assume "i \<in> set (nonzero ((s a)[j := 0]))"
    then have i: "i < length (s a)" "(s a)[j := 0] ! i \<noteq> 0" by (simp_all add: set_nonzero)
    then have "i \<noteq> j" by auto
    with i have "i \<in> {i. i < length (s a) \<and> s a ! i \<noteq> 0}" by simp
    with only \<open>i \<noteq> j\<close> show False by simp
  qed
  then show "nonzero ((s a)[j := 0]) = []" by (metis all_not_in_conv set_empty)
qed

text \<open>
  Claim C2, at the row \<open>[1, 0, 0]\<close>, whose one nonzero entry is in column 0. There
  \<^verbatim>\<open>np.nonzero\<close> gives the positions \<open>[0]\<close>, \<^verbatim>\<open>any([0])\<close> is false because the position 0 is
  falsy, and the row comes back as it was, for every seed and every draw: not the all-zero
  row.
\<close>

theorem set_to_zero_misses_column_zero:
  "set_to_zero choice (\<lambda>_. [1, 0, 0]) 0 seed = ((\<lambda>_. [1, 0, 0]), Inr 0)"
  by (simp add: set_to_zero_def nonzero_def any_py_def upt_rec)

text \<open>
  Claim C10. For every row and every seed, the row after \<^verbatim>\<open>set_to_zero\<close> has the length of
  the row before, differs from it in at most one position, and where it differs the entry
  was nonzero and is now 0.
\<close>

theorem set_to_zero_changes_at_most_one:
  assumes "choice_ok choice"
  shows "length (fst (set_to_zero choice s a seed) a) = length (s a) \<and>
         card {i. i < length (s a) \<and> fst (set_to_zero choice s a seed) a ! i \<noteq> s a ! i} \<le> 1 \<and>
         (\<forall>i < length (s a). fst (set_to_zero choice s a seed) a ! i \<noteq> s a ! i \<longrightarrow>
             s a ! i \<noteq> 0 \<and> fst (set_to_zero choice s a seed) a ! i = 0)"
  using set_to_zero_cases [OF assms, of s a seed]
proof
  assume "fst (set_to_zero choice s a seed) = s"
  then show ?thesis by simp
next
  assume "\<exists>j. j < length (s a) \<and> s a ! j \<noteq> 0 \<and>
              fst (set_to_zero choice s a seed) = s(a := (s a)[j := 0])"
  then obtain j where j: "j < length (s a)" "s a ! j \<noteq> 0"
    and eq: "fst (set_to_zero choice s a seed) a = (s a)[j := 0]" by auto
  show ?thesis unfolding eq
    using j update_diff_card [of "s a" j 0] by (auto simp: nth_list_update split: if_splits)
qed

theorem set_to_zero_changes_at_most_one_witness:
  "choice_ok (\<lambda>seed idx. hd idx) \<and>
   fst (set_to_zero (\<lambda>seed idx. hd idx) (\<lambda>_. [0, 1, 1]) 0 42) 0 = [0, 0, 1] \<and>
   card {i. i < length [0, 1, 1::int] \<and> [0, 0, 1::int] ! i \<noteq> [0, 1, 1] ! i} \<le> 1"
proof -
  have ev: "fst (set_to_zero (\<lambda>seed idx. hd idx) (\<lambda>_. [0, 1, 1]) 0 42) 0 = [0, 0, 1]"
    by (simp add: set_to_zero_def nonzero_def any_py_def upt_rec)
  show ?thesis
    using set_to_zero_changes_at_most_one [OF choice_hd_ok, of "\<lambda>_. [0, 1, 1]" 0 42] choice_hd_ok
    unfolding ev by simp
qed

text \<open>
  Claim C6 says that \<^verbatim>\<open>set_to_zero\<close> returns a new row and leaves the caller's row as it
  was. The source writes \<^verbatim>\<open>row[...] = 0\<close> into the array it was given and returns that
  array: on the caller's row \<open>[0, 1]\<close>, held at reference 0, the store holds another row
  at reference 0 after the call, and the reference returned is 0 again.
\<close>

theorem set_to_zero_mutates_caller_row:
  "fst (set_to_zero (\<lambda>seed idx. hd idx) (\<lambda>_. [0, 1]) 0 42) 0 \<noteq> [0, 1] \<and>
   snd (set_to_zero (\<lambda>seed idx. hd idx) (\<lambda>_. [0, 1]) 0 42) = Inr 0"
  by (simp add: set_to_zero_def nonzero_def any_py_def upt_rec)

text \<open>
  Claim C6 as amended. \<^verbatim>\<open>set_to_zero\<close> makes no copy: the row it returns is the caller's
  own row (the same reference), and no other row of the store changes. For every seed
  numpy accepts and every row with a nonzero entry in a column other than 0, the caller's
  row itself is modified: one of its nonzero entries is overwritten with 0 in place.
\<close>

theorem set_to_zero_in_place:
  assumes "choice_ok choice"
  shows "(snd (set_to_zero choice s a seed) = Inr a \<or>
          snd (set_to_zero choice s a seed) = Inl ValueError) \<and>
         (\<forall>b. b \<noteq> a \<longrightarrow> fst (set_to_zero choice s a seed) b = s b) \<and>
         ((\<exists>i. 0 < i \<and> i < length (s a) \<and> s a ! i \<noteq> 0) \<and> 0 \<le> seed \<and> seed < 2 ^ 32 \<longrightarrow>
            snd (set_to_zero choice s a seed) = Inr a \<and>
            fst (set_to_zero choice s a seed) a \<noteq> s a \<and>
            (\<exists>j. j < length (s a) \<and> s a ! j \<noteq> 0 \<and>
                 fst (set_to_zero choice s a seed) a = (s a)[j := 0]))"
proof (intro conjI allI impI)
  show "snd (set_to_zero choice s a seed) = Inr a \<or>
        snd (set_to_zero choice s a seed) = Inl ValueError"
    by (rule set_to_zero_result)
next
  fix b assume "b \<noteq> a"
  with set_to_zero_cases [OF assms, of s a seed]
  show "fst (set_to_zero choice s a seed) b = s b" by auto
next
  assume h: "(\<exists>i. 0 < i \<and> i < length (s a) \<and> s a ! i \<noteq> 0) \<and> 0 \<le> seed \<and> seed < 2 ^ 32"
  then obtain i where i: "0 < i" "i < length (s a)" "s a ! i \<noteq> 0" by blast
  then have "i \<in> set (nonzero (s a))" by (simp add: set_nonzero)
  with i have any: "any_py (nonzero (s a))" by (auto simp: any_py_iff)
  then have "nonzero (s a) \<noteq> []" by (rule any_py_nonempty)
  with assms have "choice seed (nonzero (s a)) \<in> set (nonzero (s a))"
    by (simp add: choice_ok_def)
  then have c: "choice seed (nonzero (s a)) < length (s a)" "s a ! choice seed (nonzero (s a)) \<noteq> 0"
    by (simp_all add: set_nonzero)
  from any h have r: "set_to_zero choice s a seed =
      (s(a := (s a)[choice seed (nonzero (s a)) := 0]), Inr a)"
    by (simp add: set_to_zero_def)
  show "snd (set_to_zero choice s a seed) = Inr a" by (simp add: r)
  have "(s a)[choice seed (nonzero (s a)) := 0] ! choice seed (nonzero (s a)) = 0"
    using c by simp
  with c have "(s a)[choice seed (nonzero (s a)) := 0] \<noteq> s a" by metis
  then show "fst (set_to_zero choice s a seed) a \<noteq> s a" by (simp add: r)
  from c show "\<exists>j. j < length (s a) \<and> s a ! j \<noteq> 0 \<and>
                 fst (set_to_zero choice s a seed) a = (s a)[j := 0]"
    unfolding r by auto
qed

theorem set_to_zero_in_place_witness:
  "choice_ok (\<lambda>seed idx. hd idx) \<and>
   (\<exists>i. 0 < i \<and> i < length [1, 0, 1::int] \<and> [1, 0, 1::int] ! i \<noteq> 0) \<and>
   snd (set_to_zero (\<lambda>seed idx. hd idx) (\<lambda>n. if n = 7 then [1, 0, 1] else []) 7 42) = Inr 7 \<and>
   fst (set_to_zero (\<lambda>seed idx. hd idx) (\<lambda>n. if n = 7 then [1, 0, 1] else []) 7 42) 7 \<noteq> [1, 0, 1]"
proof -
  have ex: "\<exists>i. 0 < i \<and> i < length [1, 0, 1::int] \<and> [1, 0, 1::int] ! i \<noteq> 0"
    by (rule exI [of _ 2]) simp
  with set_to_zero_in_place [OF choice_hd_ok, of "\<lambda>n. if n = 7 then [1, 0, 1] else []" 7 42]
    choice_hd_ok
  show ?thesis by simp
qed

subsection \<open>\<^verbatim>\<open>_mrr_func\<close>\<close>

text \<open>
  The scan started at position \<open>n\<close>: with no relevant item it ends with 0, and at the first
  relevant item it returns the reciprocal of that item's position counted from 1.
\<close>

lemma mrr_scan_miss:
  "\<forall>r \<in> set top_k. r < length test_row \<and> test_row ! r \<noteq> 1 \<Longrightarrow> mrr_scan n top_k test_row = Inr 0"
  by (induction top_k arbitrary: n) auto

lemma mrr_scan_hit:
  "rank < length top_k \<Longrightarrow> \<forall>j \<le> rank. top_k ! j < length test_row \<Longrightarrow>
   test_row ! (top_k ! rank) = 1 \<Longrightarrow> \<forall>j < rank. test_row ! (top_k ! j) \<noteq> 1 \<Longrightarrow>
   mrr_scan n top_k test_row = Inr (1 / (real (n + rank) + 1))"
proof (induction top_k arbitrary: n rank)
  case Nil
  then show ?case by simp
next
  case (Cons r rest)
  show ?case
  proof (cases rank)
    case 0
    with Cons.prems show ?thesis by simp
  next
    case (Suc m)
    from Cons.prems(2) have r: "r < length test_row" by (metis le0 nth_Cons_0)
    from Cons.prems(4) Suc have nr: "test_row ! r \<noteq> 1" by (metis nth_Cons_0 zero_less_Suc)
    have "mrr_scan (n + 1) rest test_row = Inr (1 / (real (n + 1 + m) + 1))"
    proof (rule Cons.IH)
      show "m < length rest" using Cons.prems(1) Suc by simp
      show "\<forall>j\<le>m. rest ! j < length test_row"
        using Cons.prems(2) Suc by (metis Suc_le_mono nth_Cons_Suc)
      show "test_row ! (rest ! m) = 1" using Cons.prems(3) Suc by simp
      show "\<forall>j<m. test_row ! (rest ! j) \<noteq> 1"
        using Cons.prems(4) Suc by (metis Suc_less_eq nth_Cons_Suc)
    qed
    with r nr Suc show ?thesis by simp
  qed
qed

lemma mrr_scan_spec:
  "\<forall>r \<in> set top_k. r < length test_row \<Longrightarrow>
   mrr_scan n top_k test_row =
     Inr (if list_ex (\<lambda>r. test_row ! r = 1) top_k
          then 1 / (real (n + length (takeWhile (\<lambda>r. test_row ! r \<noteq> 1) top_k)) + 1)
          else 0)"
  by (induction top_k arbitrary: n) auto

lemma mrr_func_spec:
  "\<forall>r \<in> set top_k. r < length test_row \<Longrightarrow>
   mrr_func top_k test_row = Inr (spec_mrr_single top_k test_row)"
  by (simp add: mrr_func_def spec_mrr_single_def mrr_scan_spec)

text \<open>
  Claim C8. \<^verbatim>\<open>_mrr_func\<close> returns \<open>1 / (rank + 1)\<close> where \<open>rank\<close> is the position, counted
  from 0, of the first entry of the ranked list that the test row marks with 1, and 0
  when the test row marks none of the entries; later hits add nothing, the result is the
  one reciprocal rank of the first hit. For the test row \<open>[0, 1, 0, 1]\<close> and the ranked
  list \<open>[2, 0, 1]\<close> the result is \<open>1 / 3\<close>.
\<close>

theorem mrr_func_first_hit:
  "((\<forall>r \<in> set top_k. r < length test_row \<and> test_row ! r \<noteq> 1) \<longrightarrow>
      mrr_func top_k test_row = Inr 0) \<and>
   (rank < length top_k \<and> (\<forall>j \<le> rank. top_k ! j < length test_row) \<and>
    test_row ! (top_k ! rank) = 1 \<and> (\<forall>j < rank. test_row ! (top_k ! j) \<noteq> 1) \<longrightarrow>
      mrr_func top_k test_row = Inr (1 / (real rank + 1))) \<and>
   mrr_func [2, 0, 1] [0, 1, 0, 1] = Inr (1 / 3)"
proof (intro conjI impI)
  assume "\<forall>r \<in> set top_k. r < length test_row \<and> test_row ! r \<noteq> 1"
  then show "mrr_func top_k test_row = Inr 0"
    unfolding mrr_func_def by (rule mrr_scan_miss)
next
  assume h: "rank < length top_k \<and> (\<forall>j \<le> rank. top_k ! j < length test_row) \<and>
    test_row ! (top_k ! rank) = 1 \<and> (\<forall>j < rank. test_row ! (top_k ! j) \<noteq> 1)"
  then have "mrr_scan 0 top_k test_row = Inr (1 / (real (0 + rank) + 1))"
    by (intro mrr_scan_hit) auto
  then show "mrr_func top_k test_row = Inr (1 / (real rank + 1))"
    by (simp add: mrr_func_def)
next
  show "mrr_func [2, 0, 1] [0, 1, 0, 1] = Inr (1 / 3)"
    by (simp add: mrr_func_def)
qed

theorem mrr_func_first_hit_witness:
  "mrr_func [2, 0, 1, 3] [0, 1, 0, 1] = Inr (1 / 3) \<and> mrr_func [0, 2] [0, 1, 0, 1] = Inr 0"
proof -
  have a: "(2::nat) < length [2, 0, 1, 3::nat] \<and>
           (\<forall>j \<le> 2. [2, 0, 1, 3::nat] ! j < length [0, 1, 0, 1::int]) \<and>
           [0, 1, 0, 1::int] ! ([2, 0, 1, 3::nat] ! 2) = 1 \<and>
           (\<forall>j < 2. [0, 1, 0, 1::int] ! ([2, 0, 1, 3::nat] ! j) \<noteq> 1)"
    by (auto simp: nth_Cons' less_Suc_eq le_Suc_eq numeral_2_eq_2)
  have b: "\<forall>r \<in> set [0, 2::nat]. r < length [0, 1, 0, 1::int] \<and> [0, 1, 0, 1::int] ! r \<noteq> 1"
    by simp
  from a b mrr_func_first_hit [of "[2, 0, 1, 3]" "[0, 1, 0, 1]" 2]
    mrr_func_first_hit [of "[0, 2]" "[0, 1, 0, 1]" 0]
  show ?thesis by simp
qed

subsection \<open>\<^verbatim>\<open>get_taxonomy_level_mrr\<close>\<close>

lemma argsort_stable_ok: "argsort_ok argsort_stable"
  by (simp add: argsort_ok_def argsort_stable_def)

lemma argsort_set: "argsort_ok argsort \<Longrightarrow> set (argsort xs) = {0..<length xs}"
proof -
  assume "argsort_ok argsort"
  then have "mset (argsort xs) = mset [0..<length xs]" by (simp add: argsort_ok_def)
  then have "set (argsort xs) = set [0..<length xs]" by (rule mset_eq_setD)
  then show ?thesis by simp
qed

lemma length_mul_mask: "length (mul_mask p (map f t)) = min (length p) (length t)"
  by (simp add: mul_mask_def)

lemma nth_mul_mask:
  "c < length p \<Longrightarrow> c < length t \<Longrightarrow>
   mul_mask p (map f t) ! c = (if f (t ! c) then p ! c else 0)"
  by (simp add: mul_mask_def)

lemma set_slice_to: "set (slice_to xs k) \<subseteq> set xs"
  by (simp add: slice_to_def set_take_subset)

lemma mrr_sum_spec:
  "\<forall>(top_k, te) \<in> set rows. \<forall>r \<in> set top_k. r < length te \<Longrightarrow>
   mrr_sum acc rows = Inr (acc + sum_list (map (\<lambda>(top_k, te). spec_mrr_single top_k te) rows))"
proof (induction rows arbitrary: acc)
  case Nil
  then show ?case by simp
next
  case (Cons row rows)
  obtain top_k te where row: "row = (top_k, te)" by (cases row)
  with Cons.prems have "\<forall>r \<in> set top_k. r < length te" by simp
  then have "mrr_func top_k te = Inr (spec_mrr_single top_k te)" by (rule mrr_func_spec)
  moreover have "mrr_sum (acc + spec_mrr_single top_k te) rows =
      Inr (acc + spec_mrr_single top_k te + sum_list (map (\<lambda>(top_k, te). spec_mrr_single top_k te) rows))"
    using Cons.prems by (intro Cons.IH) simp
  ultimately show ?case by (simp add: row)
qed

text \<open>
  One row of the ranking behind \<open>top_k_recommendations\<close>: every column once, in
  descending order of the masked score.
\<close>

lemma ranked_row:
  assumes ok: "argsort_ok argsort" and len: "length t = length p"
  defines "ranked \<equiv> rev (argsort (mul_mask p (map (\<lambda>x. x = 0) t)))"
  shows "mset ranked = mset [0..<length p]"
    and "sorted (rev (map (\<lambda>c. if t ! c = 0 then p ! c else 0) ranked))"
proof -
  let ?m = "mul_mask p (map (\<lambda>x. x = 0) t)"
  have lm: "length ?m = length p" using len by (simp add: length_mul_mask)
  from ok have ms: "mset (argsort ?m) = mset [0..<length ?m]"
    and so: "sorted (map (\<lambda>i. ?m ! i) (argsort ?m))"
    by (simp_all add: argsort_ok_def)
  show "mset ranked = mset [0..<length p]" using ms lm by (simp add: ranked_def)
  have "set (argsort ?m) = {0..<length p}" using argsort_set [OF ok, of ?m] lm by simp
  then have eq: "map (\<lambda>c. if t ! c = 0 then p ! c else 0) (argsort ?m) = map (\<lambda>i. ?m ! i) (argsort ?m)"
    using len by (intro map_cong) (auto simp: nth_mul_mask)
  have "rev (map (\<lambda>c. if t ! c = 0 then p ! c else 0) ranked) =
      map (\<lambda>c. if t ! c = 0 then p ! c else 0) (argsort ?m)"
    by (simp add: ranked_def rev_map)
  with so eq show "sorted (rev (map (\<lambda>c. if t ! c = 0 then p ! c else 0) ranked))"
    by metis
qed

text \<open>
  What \<^verbatim>\<open>get_taxonomy_level_mrr\<close> computes on a non-empty prediction matrix, a train matrix
  of the same shape and a test matrix with as many rows and at least as many columns: the
  sum of the per-row \<^verbatim>\<open>_mrr_func\<close> values divided by the total number of rows, where the list
  a row is scored on is the first k entries of a ranking of all its columns, each once,
  in descending order of the masked score (the prediction where train is 0, and 0 where
  train is nonzero).
\<close>

lemma get_taxonomy_level_mrr_ranks_all_columns:
  assumes ok: "argsort_ok argsort"
    and ne: "predictions \<noteq> []"
    and shape: "map length train = map length predictions"
    and rows: "length test = length predictions"
    and cols: "\<forall>u < length predictions. length (predictions ! u) \<le> length (test ! u)"
  shows "\<exists>ranked vals.
           length ranked = length predictions \<and> length vals = length predictions \<and>
           (\<forall>u < length predictions.
              mset (ranked ! u) = mset [0..<length (predictions ! u)] \<and>
              sorted (rev (map (\<lambda>c. if train ! u ! c = 0 then predictions ! u ! c else 0) (ranked ! u))) \<and>
              mrr_func (slice_to (ranked ! u) k) (test ! u) = Inr (vals ! u)) \<and>
           get_taxonomy_level_mrr argsort predictions train test k =
             Inr (sum_list vals / real (length predictions))"
proof -
  define ranked where
    "ranked = map2 (\<lambda>p t. rev (argsort (mul_mask p (map (\<lambda>x. x = 0) t)))) predictions train"
  define tops where "tops = map (\<lambda>r. slice_to r k) ranked"
  define vals where "vals = map (\<lambda>(top_k, te). spec_mrr_single top_k te) (zip tops test)"
  from shape have lt: "length train = length predictions" by (rule map_eq_imp_length_eq)
  have lrow: "length (train ! u) = length (predictions ! u)" if "u < length predictions" for u
  proof -
    from that lt have "map length train ! u = length (train ! u)"
      and "map length predictions ! u = length (predictions ! u)" by simp_all
    with shape show ?thesis by simp
  qed
  have lr: "length ranked = length predictions" by (simp add: ranked_def lt)
  have ltops: "length tops = length predictions" by (simp add: tops_def lr)
  have lv: "length vals = length predictions" by (simp add: vals_def ltops rows)
  have tk: "top_k_recommendations argsort predictions train k = tops"
    by (auto simp: top_k_recommendations_def tops_def ranked_def)
  have rk: "ranked ! u = rev (argsort (mul_mask (predictions ! u) (map (\<lambda>x. x = 0) (train ! u))))"
    if "u < length predictions" for u
    using that lt by (simp add: ranked_def)
  have perm: "mset (ranked ! u) = mset [0..<length (predictions ! u)]"
    and desc: "sorted (rev (map (\<lambda>c. if train ! u ! c = 0 then predictions ! u ! c else 0) (ranked ! u)))"
    if "u < length predictions" for u
    using ranked_row [OF ok lrow [OF that]] rk [OF that] by simp_all
  have inr: "\<forall>r \<in> set (tops ! u). r < length (test ! u)" if "u < length predictions" for u
  proof
    fix r assume "r \<in> set (tops ! u)"
    then have "r \<in> set (ranked ! u)"
      using that lr set_slice_to [of "ranked ! u" k] by (auto simp: tops_def)
    moreover have "set (ranked ! u) = set [0..<length (predictions ! u)]"
      using perm [OF that] by (rule mset_eq_setD)
    ultimately have "r < length (predictions ! u)" by simp
    with cols that show "r < length (test ! u)" by fastforce
  qed
  have all_in: "\<forall>(top_k, te) \<in> set (zip tops test). \<forall>r \<in> set top_k. r < length te"
  proof -
    have "\<forall>r \<in> set top_k. r < length te" if "(top_k, te) \<in> set (zip tops test)" for top_k te
    proof -
      from that obtain u where u: "u < length (zip tops test)" "zip tops test ! u = (top_k, te)"
        by (auto simp: in_set_conv_nth)
      then have "u < length predictions" "top_k = tops ! u" "te = test ! u"
        using ltops rows by auto
      with inr show ?thesis by simp
    qed
    then show ?thesis by auto
  qed
  have sum: "mrr_sum 0 (zip tops test) = Inr (sum_list vals)"
    using mrr_sum_spec [OF all_in, of 0] by (simp add: vals_def)
  have res: "get_taxonomy_level_mrr argsort predictions train test k =
      Inr (sum_list vals / real (length predictions))"
    using ne shape by (simp add: get_taxonomy_level_mrr_def tk sum)
  have each: "mrr_func (slice_to (ranked ! u) k) (test ! u) = Inr (vals ! u)"
    if "u < length predictions" for u
  proof -
    have "tops ! u = slice_to (ranked ! u) k" using that lr by (simp add: tops_def)
    moreover have "vals ! u = spec_mrr_single (tops ! u) (test ! u)"
      using that ltops rows by (simp add: vals_def)
    moreover have "mrr_func (tops ! u) (test ! u) = Inr (spec_mrr_single (tops ! u) (test ! u))"
      using inr [OF that] by (rule mrr_func_spec)
    ultimately show ?thesis by simp
  qed
  show ?thesis
    using lr lv perm desc each res by blast
qed

text \<open>
  Claim C9, at one user with predictions \<open>[-1, 5]\<close>, train row \<open>[0, 1]\<close>, test row
  \<open>[1, 0]\<close> and k = 1. The masked scores are \<open>[-1, 0]\<close>, so the top-1 list of
  \<^verbatim>\<open>get_taxonomy_level_mrr\<close> is the train column 1 and the result is 0. Ranking only the
  column with train equal to 0, as the claim says and as the candidates of \<^verbatim>\<open>get_precision\<close>
  do at this row, gives the list \<open>[0]\<close>, a hit at rank 0, and the value 1.
\<close>

theorem get_taxonomy_level_mrr_ranks_train_column:
  "get_taxonomy_level_mrr argsort_stable [[-1, 5]] [[0, 1]] [[1, 0]] 1 = Inr 0 \<and>
   top_k_recommendations argsort_stable [[-1, 5]] [[0, 1]] 1 = [[1]] \<and>
   recommended_columns argsort_stable [-1, 5] [0, 1] = Inr [0] \<and>
   spec_evaluate_mrr argsort_stable [[-1, 5]] [[0, 1]] [[1, 0]] 1 = 1 \<and>
   get_taxonomy_level_mrr argsort_stable [[-1, 5]] [[0, 1]] [[1, 0]] 1 \<noteq>
     Inr (spec_evaluate_mrr argsort_stable [[-1, 5]] [[0, 1]] [[1, 0]] 1)"
proof -
  have ranking: "argsort_stable [-1, 5] = [0, 1]"
    by (simp add: argsort_stable_def upt_rec)
  have top: "top_k_recommendations argsort_stable [[-1, 5]] [[0, 1]] 1 = [[1]]"
    by (simp add: top_k_recommendations_def argsort_stable_def mul_mask_def slice_to_def
        slice_bound_def upt_rec)
  have code: "get_taxonomy_level_mrr argsort_stable [[-1, 5]] [[0, 1]] [[1, 0]] 1 = Inr 0"
    by (simp add: get_taxonomy_level_mrr_def top mrr_func_def)
  have tc: "training_columns [-1, 5] [0, 1] = [1]"
    by (simp add: training_columns_def mul_mask_def nonzero_def upt_rec)
  have ss: "sorted_scores argsort_stable [-1, 5] [0, 1] = [1, 0]"
    by (simp add: sorted_scores_def mul_mask_def argsort_stable_def upt_rec)
  have sibling: "recommended_columns argsort_stable [-1, 5] [0, 1] = Inr [0]"
    by (simp add: recommended_columns_def tc ss)
  have spec: "spec_evaluate_mrr argsort_stable [[-1, 5]] [[0, 1]] [[1, 0]] 1 = 1"
    by (simp add: spec_evaluate_mrr_def ranking spec_mrr_single_def)
  from code top sibling spec show ?thesis by simp
qed

subsection \<open>The candidates of \<^verbatim>\<open>get_precision\<close>\<close>

text \<open>
  What the filter leaves: each column once, and exactly the columns whose train entry is 0
  or whose prediction is 0. \<open>training_columns\<close> holds the positions where the product of
  the prediction and \<open>train \<noteq> 0\<close> is nonzero, so a train column with prediction 0 is not
  in it.
\<close>

lemma recommended_columns_set:
  assumes ok: "argsort_ok argsort" and len: "length pred = length train"
  shows "\<exists>cols. recommended_columns argsort pred train = Inr cols \<and> distinct cols \<and>
           set cols = {c. c < length pred \<and> (train ! c = 0 \<or> pred ! c = 0)}"
proof -
  let ?m = "mul_mask pred (map (\<lambda>t. t = 0) train)"
  let ?tc = "training_columns pred train"
  have lm: "length ?m = length pred" using len by (simp add: length_mul_mask)
  from ok have ms: "mset (argsort ?m) = mset [0..<length ?m]" by (simp add: argsort_ok_def)
  then have d: "distinct (argsort ?m)" by (metis distinct_upt mset_eq_imp_distinct_iff)
  have st: "set (argsort ?m) = {0..<length pred}" using argsort_set [OF ok, of ?m] lm by simp
  have tcs: "set ?tc = {c. c < length pred \<and> train ! c \<noteq> 0 \<and> pred ! c \<noteq> 0}"
    using len by (auto simp: training_columns_def set_nonzero length_mul_mask nth_mul_mask split: if_splits)
  let ?cols = "filter (\<lambda>c. c \<notin> set ?tc) (sorted_scores argsort pred train)"
  have "recommended_columns argsort pred train = Inr ?cols"
    using len by (simp add: recommended_columns_def)
  moreover have "distinct ?cols" using d by (simp add: sorted_scores_def)
  moreover have "set ?cols = {c. c < length pred \<and> (train ! c = 0 \<or> pred ! c = 0)}"
    using st tcs by (auto simp: sorted_scores_def)
  ultimately show ?thesis by blast
qed

text \<open>
  Claim C3, at the user with predictions \<open>[0, 1/2]\<close> and train row \<open>[1, 0]\<close>: column 0 is
  a train column with prediction 0. The source's \<open>training_columns\<close> is empty there, and
  the ranked candidates are \<open>[1, 0]\<close>: the train column 0 is among them.
\<close>

theorem recommended_columns_keeps_train_column:
  "recommended_columns argsort_stable [0, 1/2] [1, 0] = Inr [1, 0] \<and>
   training_columns [0, 1/2] [1, 0] = [] \<and>
   [1, 0 :: int] ! 0 \<noteq> 0"
proof -
  have tc: "training_columns [0, 1/2] [1, 0] = []"
    by (simp add: training_columns_def mul_mask_def nonzero_def upt_rec)
  have ss: "sorted_scores argsort_stable [0, 1/2] [1, 0] = [1, 0]"
    by (simp add: sorted_scores_def mul_mask_def argsort_stable_def upt_rec)
  have "recommended_columns argsort_stable [0, 1/2] [1, 0] = Inr [1, 0]"
    by (simp add: recommended_columns_def tc ss)
  with tc show ?thesis by simp
qed

subsection \<open>Double rounding\<close>

text \<open>
  Rounding to the nearest integer with ties to even is monotone, odd and the identity on
  integers.
\<close>

lemma round_half_even_of_int: "round_half_even (of_int k) = k"
  by (simp add: round_half_even_def)

lemma round_half_even_lower: "\<lfloor>y\<rfloor> \<le> round_half_even y"
  by (simp add: round_half_even_def)

lemma round_half_even_upper: "round_half_even y \<le> \<lfloor>y\<rfloor> + 1"
  by (simp add: round_half_even_def)

lemma round_half_even_mono:
  assumes "x \<le> y"
  shows "round_half_even x \<le> round_half_even y"
proof (cases "\<lfloor>x\<rfloor> = \<lfloor>y\<rfloor>")
  case True
  with assms show ?thesis by (auto simp: round_half_even_def)
next
  case False
  with assms have "\<lfloor>x\<rfloor> < \<lfloor>y\<rfloor>" by (simp add: floor_mono order.strict_iff_order)
  then have "round_half_even x \<le> \<lfloor>y\<rfloor>"
    using round_half_even_upper [of x] by linarith
  with round_half_even_lower [of y] show ?thesis by linarith
qed

lemma round_half_even_minus: "round_half_even (- y) = - round_half_even y"
proof (cases "y = of_int \<lfloor>y\<rfloor>")
  case True
  then obtain k where "y = of_int k" by metis
  then have "- y = of_int (- k)" by simp
  with \<open>y = of_int k\<close> show ?thesis by (simp only: round_half_even_of_int)
next
  case False
  then have fl: "\<lfloor>- y\<rfloor> = - \<lfloor>y\<rfloor> - 1"
    by (metis ceiling_altdef ceiling_def diff_minus_eq_add minus_add_cancel minus_diff_eq minus_minus uminus_add_conv_diff)
  show ?thesis
    unfolding round_half_even_def fl
    by (auto simp: algebra_simps)
qed

text \<open>
  The binade of a positive number brackets it between two powers of two, and so does the
  rounded value.
\<close>

lemma powr_powi: "2 powr real_of_int k = (2::real) powi k"
  by (rule powr_real_of_int') simp_all

lemma binade_eq:
  assumes "2 powi e \<le> \<bar>x\<bar>" and "\<bar>x\<bar> < 2 powi (e + 1)" and "- 1022 \<le> e"
  shows "binade x = e"
proof -
  have pos: "0 < \<bar>x\<bar>" using assms(1) by (smt (verit) zero_less_power_int)
  have "(\<lfloor>log 2 \<bar>x\<bar>\<rfloor> = e) =
      (2 powr real_of_int e \<le> \<bar>x\<bar> \<and> \<bar>x\<bar> < 2 powr real_of_int (e + 1))"
    using pos by (intro floor_log_eq_powr_iff) simp_all
  then have "\<lfloor>log 2 \<bar>x\<bar>\<rfloor> = e" using assms(1,2) by (simp only: powr_powi)
  with assms(3) show ?thesis by (simp add: binade_def)
qed

lemma nearest_double_eq:
  assumes "2 powi e \<le> \<bar>x\<bar>" and "\<bar>x\<bar> < 2 powi (e + 1)" and "- 1022 \<le> e"
  shows "nearest_double x = 2 powi (e - 52) * of_int (round_half_even (x / 2 powi (e - 52)))"
  using binade_eq [OF assms] by (simp add: nearest_double_def)

lemma floor_log2_bounds:
  assumes "0 < x"
  shows "2 powi \<lfloor>log 2 x\<rfloor> \<le> x" and "x < 2 powi (\<lfloor>log 2 x\<rfloor> + 1)"
proof -
  have "(\<lfloor>log 2 x\<rfloor> = \<lfloor>log 2 x\<rfloor>) =
      (2 powr real_of_int \<lfloor>log 2 x\<rfloor> \<le> x \<and> x < 2 powr real_of_int (\<lfloor>log 2 x\<rfloor> + 1))"
    using assms by (intro floor_log_eq_powr_iff) simp_all
  then have "2 powi \<lfloor>log 2 x\<rfloor> \<le> x \<and> x < 2 powi (\<lfloor>log 2 x\<rfloor> + 1)"
    by (simp only: powr_powi simp_thms)
  then show "2 powi \<lfloor>log 2 x\<rfloor> \<le> x" and "x < 2 powi (\<lfloor>log 2 x\<rfloor> + 1)" by simp_all
qed

lemma binade_mono: "0 < x \<Longrightarrow> x \<le> y \<Longrightarrow> binade x \<le> binade y"
proof -
  assume "0 < x" "x \<le> y"
  then have "log 2 \<bar>x\<bar> \<le> log 2 \<bar>y\<bar>" by (intro log_mono) simp_all
  then have "\<lfloor>log 2 \<bar>x\<bar>\<rfloor> \<le> \<lfloor>log 2 \<bar>y\<bar>\<rfloor>" by (rule floor_mono)
  then show ?thesis by (simp add: binade_def)
qed

lemma binade_upper: "0 < x \<Longrightarrow> x < 2 powi (binade x + 1)"
proof -
  assume x: "0 < x"
  have "(2::real) powi (\<lfloor>log 2 x\<rfloor> + 1) \<le> 2 powi (binade x + 1)"
    using x by (intro power_int_increasing) (simp_all add: binade_def)
  with floor_log2_bounds(2) [OF x] show ?thesis by linarith
qed

lemma binade_lower: "0 < x \<Longrightarrow> - 1022 < binade x \<Longrightarrow> 2 powi binade x \<le> x"
proof -
  assume x: "0 < x" and "- 1022 < binade x"
  then have "binade x = \<lfloor>log 2 x\<rfloor>" by (simp add: binade_def max_def split: if_splits)
  with floor_log2_bounds(1) [OF x] show ?thesis by simp
qed

lemma binade_minus: "binade (- x) = binade x"
  by (simp add: binade_def)

lemma quantum_times:
  "(2::real) powi (e - 52) * 2 ^ 53 = 2 powi (e + 1)"
  "(2::real) powi (e - 52) * 2 ^ 52 = 2 powi e"
proof -
  have a: "(2::real) powi 53 = 2 ^ 53" and b: "(2::real) powi 52 = 2 ^ 52"
    by (simp_all add: power_int_def)
  have "(2::real) powi (e - 52 + 53) = 2 powi (e - 52) * 2 powi 53"
    by (rule power_int_add) simp
  moreover have "e - 52 + 53 = e + 1" by simp
  ultimately show "(2::real) powi (e - 52) * 2 ^ 53 = 2 powi (e + 1)" by (simp only: a)
  have "(2::real) powi (e - 52 + 52) = 2 powi (e - 52) * 2 powi 52"
    by (rule power_int_add) simp
  moreover have "e - 52 + 52 = e" by simp
  ultimately show "(2::real) powi (e - 52) * 2 ^ 52 = 2 powi e" by (simp only: b)
qed

lemma nearest_double_upper:
  assumes "0 < x"
  shows "nearest_double x \<le> 2 powi (binade x + 1)"
proof -
  let ?q = "(2::real) powi (binade x - 52)"
  have q: "0 < ?q" by simp
  have "x < ?q * 2 ^ 53" using binade_upper [OF assms] by (simp only: quantum_times)
  then have "x / ?q \<le> of_int (2 ^ 53)" using q by (simp add: field_simps)
  then have "round_half_even (x / ?q) \<le> round_half_even (of_int (2 ^ 53))"
    by (rule round_half_even_mono)
  then have "round_half_even (x / ?q) \<le> 2 ^ 53" by (simp only: round_half_even_of_int)
  then have "real_of_int (round_half_even (x / ?q)) \<le> 2 ^ 53"
    by (metis of_int_le_iff of_int_numeral of_int_power)
  then have "?q * real_of_int (round_half_even (x / ?q)) \<le> ?q * 2 ^ 53"
    using q by (intro mult_left_mono) simp_all
  then show ?thesis by (simp only: nearest_double_def quantum_times)
qed

lemma nearest_double_lower:
  assumes "0 < x" and "- 1022 < binade x"
  shows "2 powi binade x \<le> nearest_double x"
proof -
  let ?q = "(2::real) powi (binade x - 52)"
  have q: "0 < ?q" by simp
  have "?q * 2 ^ 52 \<le> x" using binade_lower [OF assms] by (simp only: quantum_times)
  then have "of_int (2 ^ 52) \<le> x / ?q" using q by (simp add: field_simps)
  then have "round_half_even (of_int (2 ^ 52)) \<le> round_half_even (x / ?q)"
    by (rule round_half_even_mono)
  then have "2 ^ 52 \<le> round_half_even (x / ?q)" by (simp only: round_half_even_of_int)
  then have "2 ^ 52 \<le> real_of_int (round_half_even (x / ?q))"
    by (metis of_int_le_iff of_int_numeral of_int_power)
  then have "?q * 2 ^ 52 \<le> ?q * real_of_int (round_half_even (x / ?q))"
    using q by (intro mult_left_mono) simp_all
  then show ?thesis by (simp only: nearest_double_def quantum_times)
qed

text \<open>
  Rounding to the nearest double is monotone on the numbers that are not negative, odd,
  exact on the integers below \<open>2 ^ 53\<close> and on the powers of two, and finite on every
  number of magnitude at most \<open>2 ^ 1023\<close>.
\<close>

lemma nearest_double_0: "nearest_double 0 = 0"
  by (simp add: nearest_double_def round_half_even_def)

lemma nearest_double_nonneg: "0 \<le> x \<Longrightarrow> 0 \<le> nearest_double x"
proof -
  assume "0 \<le> x"
  then have "0 \<le> x / 2 powi (binade x - 52)" by simp
  then have "round_half_even 0 \<le> round_half_even (x / 2 powi (binade x - 52))"
    by (rule round_half_even_mono)
  then have "0 \<le> round_half_even (x / 2 powi (binade x - 52))"
    by (simp add: round_half_even_def)
  then show ?thesis by (simp add: nearest_double_def)
qed

lemma nearest_double_mono:
  assumes "0 \<le> x" and "x \<le> y"
  shows "nearest_double x \<le> nearest_double y"
proof (cases "x = 0")
  case True
  with assms nearest_double_nonneg [of y] show ?thesis by (simp add: nearest_double_0)
next
  case False
  with assms have x: "0 < x" and y: "0 < y" by simp_all
  from binade_mono [OF x assms(2)] have "binade x = binade y \<or> binade x < binade y" by linarith
  then show ?thesis
  proof
    assume eq: "binade x = binade y"
    let ?q = "(2::real) powi (binade y - 52)"
    have "x / ?q \<le> y / ?q" using assms(2) by (simp add: divide_right_mono)
    then have "round_half_even (x / ?q) \<le> round_half_even (y / ?q)"
      by (rule round_half_even_mono)
    then have "?q * of_int (round_half_even (x / ?q)) \<le> ?q * of_int (round_half_even (y / ?q))"
      by (intro mult_left_mono) simp_all
    then show ?thesis by (simp add: nearest_double_def eq)
  next
    assume lt: "binade x < binade y"
    have "- 1022 \<le> binade x" by (simp add: binade_def)
    with lt have "- 1022 < binade y" by linarith
    then have "2 powi binade y \<le> nearest_double y" by (rule nearest_double_lower [OF y])
    moreover have "(2::real) powi (binade x + 1) \<le> 2 powi binade y"
      using lt by (intro power_int_increasing) simp_all
    ultimately show ?thesis using nearest_double_upper [OF x] by linarith
  qed
qed

lemma nearest_double_of_nat:
  assumes "n < 2 ^ 53"
  shows "nearest_double (real n) = real n"
proof (cases "n = 0")
  case True
  then show ?thesis by (simp add: nearest_double_0)
next
  case False
  then have pos: "0 < real n" by simp
  have "real n < real (2 ^ 53)" using assms by (simp only: of_nat_less_iff)
  then have up: "real n < 2 powi 53" by (simp add: power_int_def)
  define e where "e = binade (real n)"
  have "1 \<le> real n" using False by simp
  then have "0 \<le> \<lfloor>log 2 (real n)\<rfloor>" by simp
  then have e0: "0 \<le> e" by (simp add: e_def binade_def)
  then have "2 powi e \<le> real n" using binade_lower [OF pos] by (simp add: e_def)
  with up have "(2::real) powi e < 2 powi 53" by linarith
  then have "e < 53" by (smt (verit) power_int_increasing)
  define k where "k = nat (52 - e)"
  have k: "52 - e = int k" using \<open>e < 53\<close> by (simp add: k_def)
  have "(2::real) powi (e - 52) = 2 powi (- int k)" using k by (metis minus_diff_eq)
  then have q: "(2::real) powi (e - 52) = 1 / 2 ^ k" by (simp add: power_int_minus field_simps)
  have "real n / (1 / 2 ^ k) = of_int (int n * 2 ^ k)" by simp
  then have "round_half_even (real n / (1 / 2 ^ k)) = int n * 2 ^ k"
    by (simp only: round_half_even_of_int)
  then show ?thesis by (simp add: nearest_double_def e_def [symmetric] q)
qed

lemma nearest_double_2: "nearest_double 2 = 2"
  using nearest_double_of_nat [of 2] by simp

lemma nearest_double_minus: "nearest_double (- x) = - nearest_double x"
  by (simp add: nearest_double_def binade_minus round_half_even_minus)

lemma nearest_double_abs_le:
  assumes "\<bar>x\<bar> \<le> c"
  shows "\<bar>nearest_double x\<bar> \<le> nearest_double c"
proof (cases "0 \<le> x")
  case True
  with assms have "nearest_double x \<le> nearest_double c" by (intro nearest_double_mono) simp_all
  with nearest_double_nonneg [OF True] show ?thesis by simp
next
  case False
  then have nx: "0 \<le> - x" by simp
  with assms have "nearest_double (- x) \<le> nearest_double c"
    by (intro nearest_double_mono) simp_all
  with nearest_double_nonneg [OF nx] show ?thesis by (simp add: nearest_double_minus)
qed

lemma nearest_double_pow2:
  assumes "k \<le> 1023"
  shows "nearest_double (2 ^ k) = 2 ^ k"
proof -
  have p: "(2::real) powi int k = 2 ^ k" by (rule power_int_of_nat)
  have "int k + 1 = int (Suc k)" by simp
  then have p1: "(2::real) powi (int k + 1) = 2 ^ Suc k" by (simp only: power_int_of_nat)
  have b: "binade (2 ^ k) = int k"
  proof (rule binade_eq)
    show "2 powi int k \<le> \<bar>(2::real) ^ k\<bar>" unfolding p by simp
    show "\<bar>(2::real) ^ k\<bar> < 2 powi (int k + 1)" unfolding p1 by simp
    show "- 1022 \<le> int k" by simp
  qed
  have "(2::real) powi (int k - (int k - 52)) = 2 powi int k / 2 powi (int k - 52)"
    by (rule power_int_diff) simp
  moreover have "int k - (int k - 52) = 52" by simp
  moreover have "(2::real) powi 52 = of_int (2 ^ 52)" by (simp add: power_int_def)
  ultimately have "(2::real) ^ k / 2 powi (int k - 52) = of_int (2 ^ 52)"
    by (simp only: p)
  then have "round_half_even (2 ^ k / 2 powi (int k - 52)) = 2 ^ 52"
    by (simp only: round_half_even_of_int)
  then have "nearest_double (2 ^ k) = 2 powi (int k - 52) * of_int (2 ^ 52)"
    by (simp only: nearest_double_def b)
  also have "\<dots> = 2 powi (int k - 52) * 2 ^ 52" by simp
  also have "\<dots> = 2 powi int k" by (rule quantum_times(2))
  finally show ?thesis by (simp only: p)
qed

lemma round_double_finite:
  assumes "0 \<le> x" and "x \<le> 2 ^ 54"
  shows "round_double x = Finite (nearest_double x)"
proof -
  have "nearest_double (2 ^ 54) = 2 ^ 54"
    by (subst nearest_double_eq [of 54]) (simp_all add: power_int_def round_half_even_def)
  with nearest_double_mono [OF assms] have "nearest_double x \<le> 2 ^ 54" by simp
  moreover have "(2::real) ^ 54 < 2 ^ 1024" by simp
  ultimately have "nearest_double x < 2 ^ 1024" by linarith
  moreover have "0 \<le> nearest_double x" using assms(1) by (rule nearest_double_nonneg)
  ultimately show ?thesis by (simp add: round_double_def)
qed

lemma round_double_finite_abs:
  assumes "\<bar>x\<bar> \<le> 2 ^ 1023"
  shows "round_double x = Finite (nearest_double x)"
proof -
  have "\<bar>nearest_double x\<bar> \<le> nearest_double (2 ^ 1023)"
    using assms by (rule nearest_double_abs_le)
  then have "\<bar>nearest_double x\<bar> \<le> 2 ^ 1023" by (simp only: nearest_double_pow2)
  moreover have "(2::real) ^ 1023 < 2 ^ 1024" by simp
  ultimately have "nearest_double x < 2 ^ 1024" and "- (2 ^ 1024) < nearest_double x"
    by linarith+
  then show ?thesis by (simp add: round_double_def)
qed

lemma round_double_of_nat:
  assumes "n < 2 ^ 53"
  shows "round_double (real n) = Finite (real n)"
proof -
  have "real n < real (2 ^ 53)" using assms by (simp only: of_nat_less_iff)
  then have "real n \<le> 2 ^ 54" by simp
  then have "round_double (real n) = Finite (nearest_double (real n))"
    by (intro round_double_finite) simp_all
  with nearest_double_of_nat [OF assms] show ?thesis by simp
qed

lemma round_double_eval:
  assumes "2 powi e \<le> x" and "x < 2 powi (e + 1)" and "- 1022 \<le> e" and "e \<le> 53"
  shows "round_double x =
     Finite (2 powi (e - 52) * of_int (round_half_even (x / 2 powi (e - 52))))"
proof -
  have pos: "0 < x" using assms(1) by (smt (verit) zero_less_power_int)
  have "(2::real) powi (e + 1) \<le> 2 powi 54"
    using assms(4) by (intro power_int_increasing) simp_all
  also have "(2::real) powi 54 = 2 ^ 54" by (simp add: power_int_def)
  finally have "x \<le> 2 ^ 54" using assms(2) by linarith
  with pos have "round_double x = Finite (nearest_double x)"
    by (intro round_double_finite) simp_all
  moreover have "nearest_double x =
      2 powi (e - 52) * of_int (round_half_even (x / 2 powi (e - 52)))"
    using assms(1,2,3) pos by (intro nearest_double_eq) simp_all
  ultimately show ?thesis by simp
qed

text \<open>The anchor \<^verbatim>\<open>int(n * fraction)\<close> and the sum of two fractions.\<close>

lemma py_int_nonneg: "0 \<le> x \<Longrightarrow> py_int (Finite x) = Inr \<lfloor>x\<rfloor>"
  by (simp add: py_int_def)

lemma anchor_nonneg:
  assumes n: "n < 2 ^ 53" and x: "0 \<le> x" "x \<le> 2"
  shows "anchor n (Finite x) = Inr \<lfloor>nearest_double (real n * x)\<rfloor>"
    and "0 \<le> \<lfloor>nearest_double (real n * x)\<rfloor>"
proof -
  have "real n < real (2 ^ 53)" using n by (simp only: of_nat_less_iff)
  then have "real n \<le> 2 ^ 53" by simp
  then have "real n * x \<le> 2 ^ 53 * 2" using x by (intro mult_mono) simp_all
  then have le: "real n * x \<le> 2 ^ 54" by simp
  have ge: "0 \<le> real n * x" using x by simp
  have nn: "0 \<le> nearest_double (real n * x)" using ge by (rule nearest_double_nonneg)
  then show "0 \<le> \<lfloor>nearest_double (real n * x)\<rfloor>" by simp
  have "round_double (real n * x) = Finite (nearest_double (real n * x))"
    using ge le by (rule round_double_finite)
  then show "anchor n (Finite x) = Inr \<lfloor>nearest_double (real n * x)\<rfloor>"
    using nn by (simp add: anchor_def round_double_of_nat [OF n] fmul_def py_int_nonneg)
qed

lemma anchor_finite:
  assumes n: "n < 2 ^ 53" and x: "\<bar>x\<bar> \<le> 2 ^ 901"
  shows "\<exists>a. anchor n (Finite x) = Inr a"
proof -
  have "real n < real (2 ^ 53)" using n by (simp only: of_nat_less_iff)
  then have "\<bar>real n\<bar> \<le> 2 ^ 53" by simp
  then have "\<bar>real n\<bar> * \<bar>x\<bar> \<le> 2 ^ 53 * 2 ^ 901" using x by (intro mult_mono) simp_all
  also have "(2::real) ^ 53 * 2 ^ 901 \<le> 2 ^ 1023"
    by (simp only: power_add [symmetric]) simp
  finally have "\<bar>real n * x\<bar> \<le> 2 ^ 1023" by (simp add: abs_mult)
  then have "round_double (real n * x) = Finite (nearest_double (real n * x))"
    by (rule round_double_finite_abs)
  then show ?thesis
    by (simp add: anchor_def round_double_of_nat [OF n] fmul_def py_int_def)
qed

lemma anchor_eval:
  assumes "n < 2 ^ 53" and "round_double (real n * x) = Finite y" and "0 \<le> y"
  shows "anchor n (Finite x) = Inr \<lfloor>y\<rfloor>"
  using assms by (simp add: anchor_def round_double_of_nat fmul_def py_int_def)

lemma fadd_nonneg:
  assumes "0 \<le> x + y" and "x + y \<le> 2"
  shows "fadd (Finite x) (Finite y) = Finite (nearest_double (x + y))"
proof -
  have "x + y \<le> 2 ^ 54" using assms(2) by simp
  with assms(1) have "round_double (x + y) = Finite (nearest_double (x + y))"
    by (rule round_double_finite)
  then show ?thesis by (simp add: fadd_def)
qed

lemma fadd_finite:
  assumes "\<bar>x\<bar> \<le> 2 ^ 900" and "\<bar>y\<bar> \<le> 2 ^ 900"
  shows "\<exists>s. fadd (Finite x) (Finite y) = Finite s \<and> \<bar>s\<bar> \<le> 2 ^ 901"
proof -
  have le: "\<bar>x + y\<bar> \<le> 2 ^ 901" using assms by simp
  also have "(2::real) ^ 901 \<le> 2 ^ 1023" by simp
  finally have "round_double (x + y) = Finite (nearest_double (x + y))"
    by (rule round_double_finite_abs)
  moreover have "\<bar>nearest_double (x + y)\<bar> \<le> 2 ^ 901"
    using nearest_double_abs_le [OF le] by (simp only: nearest_double_pow2)
  ultimately show ?thesis by (simp add: fadd_def)
qed

subsection \<open>\<^verbatim>\<open>two_way_split\<close> and \<^verbatim>\<open>three_way_split\<close>\<close>

text \<open>
  The conversion of the timestamp column keeps the number of rows, their order and their
  other columns; it succeeds exactly when every raw timestamp parses, and a cell that is a
  datetime already converts to itself.
\<close>

lemma to_datetime_length: "to_datetime parse df = Some converted \<Longrightarrow> length converted = length df"
  by (induction parse df arbitrary: converted rule: to_datetime.induct)
     (auto split: option.splits)

lemma to_datetime_snd: "to_datetime parse df = Some converted \<Longrightarrow> map snd converted = map snd df"
  by (induction parse df arbitrary: converted rule: to_datetime.induct)
     (auto split: option.splits)

lemma to_datetime_cells:
  "to_datetime parse df = Some converted \<Longrightarrow> i < length df \<Longrightarrow>
   fst (df ! i) = Datetime (fst (converted ! i)) \<or>
   (\<exists>raw. fst (df ! i) = Raw raw \<and> parse raw = Some (fst (converted ! i)))"
proof (induction df arbitrary: converted i)
  case Nil
  then show ?case by simp
next
  case (Cons row df)
  obtain c a where row: "row = (c, a)" by (cases row)
  from Cons.prems(1) row obtain t rs
    where rs: "to_datetime parse df = Some rs" "converted = (t, a) # rs"
      and c: "c = Datetime t \<or> (\<exists>raw. c = Raw raw \<and> parse raw = Some t)"
    by (cases c) (auto split: option.splits)
  show ?case
  proof (cases i)
    case 0
    with row rs c show ?thesis by auto
  next
    case (Suc j)
    with Cons.prems(2) have "j < length df" by simp
    from Cons.IH [OF rs(1) this] Suc rs(2) show ?thesis by simp
  qed
qed

lemma to_datetime_of_datetimes:
  "\<forall>row \<in> set df. \<exists>t. fst row = Datetime t \<Longrightarrow>
   \<exists>converted. to_datetime parse df = Some converted \<and> datetime_column converted = df"
proof (induction df)
  case Nil
  then show ?case by (simp add: datetime_column_def)
next
  case (Cons row df)
  then obtain converted where c: "to_datetime parse df = Some converted" "datetime_column converted = df"
    by auto
  from Cons.prems obtain t a where "row = (Datetime t, a)" by (cases row) auto
  with c show ?case by (simp add: datetime_column_def)
qed

lemma to_datetime_Some_iff:
  "(to_datetime parse df \<noteq> None) =
     (\<forall>row \<in> set df. \<forall>raw. fst row = Raw raw \<longrightarrow> parse raw \<noteq> None)"
proof (induction df)
  case Nil
  then show ?case by simp
next
  case (Cons row df)
  obtain c a where row: "row = (c, a)" by (cases row)
  show ?case
  proof (cases c)
    case (Raw r)
    with row Cons.IH show ?thesis by (auto split: option.splits)
  next
    case (Datetime t)
    with row Cons.IH show ?thesis by (auto split: option.splits)
  qed
qed

lemma datetime_column_nth:
  "i < length converted \<Longrightarrow>
   datetime_column converted ! i = (Datetime (fst (converted ! i)), snd (converted ! i))"
  by (simp add: datetime_column_def case_prod_unfold)

lemma datetime_column_snd: "map snd (datetime_column converted) = map snd converted"
  by (simp add: datetime_column_def case_prod_unfold)

lemma caller_two_way:
  "fst (two_way_split parse sort_values df train_frac) =
     (case to_datetime parse df of None \<Rightarrow> df | Some converted \<Rightarrow> datetime_column converted)"
  by (simp add: two_way_split_def Let_def split: option.splits)

lemma caller_three_way:
  "fst (three_way_split parse sort_values df ratio) =
     (case to_datetime parse df of None \<Rightarrow> df | Some converted \<Rightarrow> datetime_column converted)"
  by (simp add: three_way_split_def Let_def split: option.splits prod.splits)

lemma parse_error_two_way:
  "to_datetime parse df = None \<Longrightarrow>
   snd (two_way_split parse sort_values df train_frac) = Inl ParserError"
  by (simp add: two_way_split_def)

lemma parse_error_three_way:
  "to_datetime parse df = None \<Longrightarrow>
   snd (three_way_split parse sort_values df ratio) = Inl ParserError"
  by (simp add: three_way_split_def split: prod.splits)

lemma caller_table_after:
  fixes parse :: "'r \<Rightarrow> int option" and df :: "('r stamp \<times> 'a) list"
  defines "after \<equiv> (case to_datetime parse df of None \<Rightarrow> df | Some converted \<Rightarrow> datetime_column converted)"
  shows "length after = length df"
    and "map snd after = map snd df"
    and "to_datetime parse df \<noteq> None \<Longrightarrow> i < length df \<Longrightarrow>
           (\<exists>t. fst (df ! i) = Datetime t \<and> fst (after ! i) = Datetime t) \<or>
           (\<exists>raw t. fst (df ! i) = Raw raw \<and> parse raw = Some t \<and> fst (after ! i) = Datetime t)"
    and "to_datetime parse df = None \<Longrightarrow> after = df"
    and "\<forall>row \<in> set df. \<exists>t. fst row = Datetime t \<Longrightarrow> after = df"
proof -
  show "to_datetime parse df = None \<Longrightarrow> after = df" by (simp add: after_def)
  show "\<forall>row \<in> set df. \<exists>t. fst row = Datetime t \<Longrightarrow> after = df"
    using to_datetime_of_datetimes [of df parse] by (auto simp: after_def)
  show "length after = length df"
    by (auto simp: after_def datetime_column_def to_datetime_length split: option.splits)
  show "map snd after = map snd df"
    by (auto simp: after_def datetime_column_snd to_datetime_snd split: option.splits)
  assume "to_datetime parse df \<noteq> None" and i: "i < length df"
  then obtain converted where c: "to_datetime parse df = Some converted" by auto
  then have a: "after = datetime_column converted" by (simp add: after_def)
  have "length converted = length df" using c by (rule to_datetime_length)
  with i have "fst (after ! i) = Datetime (fst (converted ! i))"
    by (simp add: a datetime_column_nth)
  with to_datetime_cells [OF c i]
  show "(\<exists>t. fst (df ! i) = Datetime t \<and> fst (after ! i) = Datetime t) \<or>
        (\<exists>raw t. fst (df ! i) = Raw raw \<and> parse raw = Some t \<and> fst (after ! i) = Datetime t)"
    by auto
qed

text \<open>
  Slices with bounds that are not negative are \<open>take\<close> and \<open>drop\<close>, and two bounds in
  order cut a list into three consecutive segments. Once the timestamps convert and the
  anchors are computed, the result of a split is the slices at the anchors.
\<close>

lemma sort_ok_length: "sort_ok sort_values \<Longrightarrow> length (sort_values rows) = length rows"
  by (metis sort_ok_def mset_eq_length)

lemma sort_key_fst_ok: "sort_ok (sort_key fst)"
  by (simp add: sort_ok_def)

lemma slices_nonneg:
  assumes "0 \<le> a"
  shows "slice_to xs a = take (nat a) xs" and "slice_from xs a = drop (nat a) xs"
    and "slice_between xs a b = drop (nat a) (slice_to xs b)"
proof -
  from assms have sb: "slice_bound (length xs) a = min (length xs) (nat a)"
    by (simp add: slice_bound_def)
  show "slice_to xs a = take (nat a) xs" by (simp add: slice_to_def sb min_def)
  show "slice_from xs a = drop (nat a) xs" by (simp add: slice_from_def sb min_def)
  show "slice_between xs a b = drop (nat a) (slice_to xs b)"
    by (simp add: slice_between_def slice_to_def sb min_def)
qed

lemma slice_to_from: "slice_to xs a @ slice_from xs a = xs"
  by (simp add: slice_to_def slice_from_def)

lemma take_drop_partition:
  "a \<le> b \<Longrightarrow> take a xs @ drop a (take b xs) @ drop b xs = xs"
proof -
  assume "a \<le> b"
  then have "take a xs = take a (take b xs)" by (simp add: min_def)
  then have "take a xs @ drop a (take b xs) = take b xs"
    by (metis append_take_drop_id)
  then show ?thesis by (metis append_assoc append_take_drop_id)
qed

lemma partition_facts:
  fixes S :: "'b list"
  assumes ab: "a \<le> b"
  shows "take a S @ drop a (take b S) @ drop b S = S"
    and "length (take a S) + length (drop a (take b S)) + length (drop b S) = length S"
    and "mset (take a S) + mset (drop a (take b S)) + mset (drop b S) = mset S"
    and "distinct S \<Longrightarrow> set (take a S) \<inter> set (drop a (take b S)) = {} \<and>
           set (take a S) \<inter> set (drop b S) = {} \<and>
           set (drop a (take b S)) \<inter> set (drop b S) = {}"
proof -
  show p: "take a S @ drop a (take b S) @ drop b S = S" using ab by (rule take_drop_partition)
  have "length (take a S @ drop a (take b S) @ drop b S) = length S" by (simp only: p)
  then show "length (take a S) + length (drop a (take b S)) + length (drop b S) = length S"
    by (simp only: length_append add.assoc)
  have "mset (take a S @ drop a (take b S) @ drop b S) = mset S" by (simp only: p)
  then show "mset (take a S) + mset (drop a (take b S)) + mset (drop b S) = mset S"
    by (simp only: mset_append add.assoc)
  assume "distinct S"
  then have "distinct (take a S @ drop a (take b S) @ drop b S)" by (simp only: p)
  then show "set (take a S) \<inter> set (drop a (take b S)) = {} \<and>
           set (take a S) \<inter> set (drop b S) = {} \<and>
           set (drop a (take b S)) \<inter> set (drop b S) = {}"
    by (simp only: distinct_append set_append) blast
qed

lemma two_way_split_at:
  assumes "to_datetime parse df = Some converted"
    and "anchor (length (sort_values converted)) train_frac = Inr a"
  shows "snd (two_way_split parse sort_values df train_frac) =
     Inr (slice_to (sort_values converted) a, slice_from (sort_values converted) a)"
  using assms by (simp add: two_way_split_def Let_def)

lemma three_way_split_at:
  assumes "to_datetime parse df = Some converted"
    and "anchor (length (sort_values converted)) train_frac = Inr a"
    and "anchor (length (sort_values converted)) (fadd val_frac train_frac) = Inr b"
  shows "snd (three_way_split parse sort_values df (train_frac, val_frac, test_frac)) =
     Inr (slice_to (sort_values converted) a,
          slice_between (sort_values converted) a b,
          slice_from (sort_values converted) b)"
  using assms by (simp add: three_way_split_def Let_def)

text \<open>
  Claim C4 puts the boundaries at \<open>floor (N * train_frac)\<close> and
  \<open>floor (N * (train_frac + val_frac))\<close>. The source computes them in double precision, and
  the rounding of the product or of the sum can move a boundary. With three rows and
  \<open>train_frac = 0.3333333333333333\<close> the product rounds up to \<open>1.0\<close>, so train has one row,
  while the floor of the exact product is 0. With ten rows and the default ratio
  \<open>(.7, .1, .2)\<close> the sum \<open>.1 + .7\<close> is the double just below \<open>0.8\<close> and both anchors are 7:
  the validation set is empty and the test set has three rows, while
  \<open>floor (10 * (7/10 + 1/10))\<close> is 8.
\<close>

theorem splits_round_the_anchors:
  "snd (two_way_split Some (sort_key fst) [(Raw (30::int), 0::nat), (Raw 10, 1), (Raw 20, 2)]
         (Finite (6004799503160661 / 18014398509481984))) =
     Inr ([(10, 1)], [(20, 2), (30, 0)]) \<and>
   round_double (3333333333333333 / 10000000000000000) =
     Finite (6004799503160661 / 18014398509481984) \<and>
   \<lfloor>3 * (6004799503160661 / 18014398509481984 :: real)\<rfloor> = 0 \<and>
   snd (three_way_split Some (sort_key fst)
         [(Raw (30::int), 0::nat), (Raw 10, 1), (Raw 20, 2), (Raw 50, 3), (Raw 40, 4),
          (Raw 60, 5), (Raw 80, 6), (Raw 70, 7), (Raw 100, 8), (Raw 90, 9)]
         (Finite (3152519739159347 / 4503599627370496),
          Finite (3602879701896397 / 36028797018963968),
          Finite (3602879701896397 / 18014398509481984))) =
     Inr ([(10, 1), (20, 2), (30, 0), (40, 4), (50, 3), (60, 5), (70, 7)],
          [],
          [(80, 6), (90, 9), (100, 8)]) \<and>
   round_double (7 / 10) = Finite (3152519739159347 / 4503599627370496) \<and>
   round_double (1 / 10) = Finite (3602879701896397 / 36028797018963968) \<and>
   \<lfloor>10 * (7 / 10 + 1 / 10 :: real)\<rfloor> = 8"
proof -
  have third: "round_double (3333333333333333 / 10000000000000000) =
      Finite (6004799503160661 / 18014398509481984)"
    by (subst round_double_eval [of "-2"]) (simp_all add: power_int_minus round_half_even_def)
  have "round_double (real 3 * (6004799503160661 / 18014398509481984)) = Finite 1"
    by (subst round_double_eval [of "-1"]) (simp_all add: power_int_minus round_half_even_def)
  then have a3: "anchor 3 (Finite (6004799503160661 / 18014398509481984)) = Inr 1"
    by (subst anchor_eval [of 3 _ 1]) simp_all
  have c3: "to_datetime Some [(Raw (30::int), 0::nat), (Raw 10, 1), (Raw 20, 2)] =
      Some [(30, 0), (10, 1), (20, 2)]" by simp
  have s3: "sort_key fst [(30::int, 0::nat), (10, 1), (20, 2)] = [(10, 1), (20, 2), (30, 0)]"
    by simp
  have l3: "length (sort_key fst [(30::int, 0::nat), (10, 1), (20, 2)]) = 3"
    unfolding s3 by simp
  have two: "snd (two_way_split Some (sort_key fst)
         [(Raw (30::int), 0::nat), (Raw 10, 1), (Raw 20, 2)]
         (Finite (6004799503160661 / 18014398509481984))) =
     Inr ([(10, 1)], [(20, 2), (30, 0)])"
  proof -
    have "anchor (length (sort_key fst [(30::int, 0::nat), (10, 1), (20, 2)]))
        (Finite (6004799503160661 / 18014398509481984)) = Inr 1"
      unfolding l3 by (rule a3)
    from two_way_split_at [where sort_values = "sort_key fst", OF c3 this] show ?thesis
      unfolding s3 by (simp add: slice_to_def slice_from_def slice_bound_def)
  qed
  have d07: "round_double (7 / 10) = Finite (3152519739159347 / 4503599627370496)"
    by (subst round_double_eval [of "-1"]) (simp_all add: power_int_minus round_half_even_def)
  have d01: "round_double (1 / 10) = Finite (3602879701896397 / 36028797018963968)"
    by (subst round_double_eval [of "-4"]) (simp_all add: power_int_minus round_half_even_def)
  have "round_double (real 10 * (3152519739159347 / 4503599627370496)) = Finite 7"
    by (subst round_double_eval [of 2]) (simp_all add: power_int_minus round_half_even_def)
  then have a7: "anchor 10 (Finite (3152519739159347 / 4503599627370496)) = Inr 7"
    by (subst anchor_eval [of 10 _ 7]) simp_all
  have "round_double (3602879701896397 / 36028797018963968 + 3152519739159347 / 4503599627370496) =
      Finite (7205759403792793 / 9007199254740992)"
    by (subst round_double_eval [of "-1"]) (simp_all add: power_int_minus round_half_even_def)
  then have sum: "fadd (Finite (3602879701896397 / 36028797018963968))
      (Finite (3152519739159347 / 4503599627370496)) =
      Finite (7205759403792793 / 9007199254740992)"
    by (simp add: fadd_def)
  have "round_double (real 10 * (7205759403792793 / 9007199254740992)) =
      Finite (9007199254740991 / 1125899906842624)"
    by (subst round_double_eval [of 2]) (simp_all add: power_int_minus round_half_even_def)
  then have a8: "anchor 10 (Finite (7205759403792793 / 9007199254740992)) = Inr 7"
    by (subst anchor_eval [of 10 _ "9007199254740991 / 1125899906842624"]) simp_all
  have c10: "to_datetime Some
      [(Raw (30::int), 0::nat), (Raw 10, 1), (Raw 20, 2), (Raw 50, 3), (Raw 40, 4),
       (Raw 60, 5), (Raw 80, 6), (Raw 70, 7), (Raw 100, 8), (Raw 90, 9)] =
      Some [(30, 0), (10, 1), (20, 2), (50, 3), (40, 4), (60, 5), (80, 6), (70, 7), (100, 8),
        (90, 9)]" by simp
  have s10: "sort_key fst [(30::int, 0::nat), (10, 1), (20, 2), (50, 3), (40, 4), (60, 5),
      (80, 6), (70, 7), (100, 8), (90, 9)] =
      [(10, 1), (20, 2), (30, 0), (40, 4), (50, 3), (60, 5), (70, 7), (80, 6), (90, 9), (100, 8)]"
    by simp
  have l10: "length (sort_key fst [(30::int, 0::nat), (10, 1), (20, 2), (50, 3), (40, 4),
      (60, 5), (80, 6), (70, 7), (100, 8), (90, 9)]) = 10"
    unfolding s10 by simp
  have three: "snd (three_way_split Some (sort_key fst)
         [(Raw (30::int), 0::nat), (Raw 10, 1), (Raw 20, 2), (Raw 50, 3), (Raw 40, 4),
          (Raw 60, 5), (Raw 80, 6), (Raw 70, 7), (Raw 100, 8), (Raw 90, 9)]
         (Finite (3152519739159347 / 4503599627370496),
          Finite (3602879701896397 / 36028797018963968),
          Finite (3602879701896397 / 18014398509481984))) =
     Inr ([(10, 1), (20, 2), (30, 0), (40, 4), (50, 3), (60, 5), (70, 7)],
          [],
          [(80, 6), (90, 9), (100, 8)])"
  proof -
    let ?c = "[(30::int, 0::nat), (10, 1), (20, 2), (50, 3), (40, 4), (60, 5), (80, 6),
      (70, 7), (100, 8), (90, 9)]"
    have x: "anchor (length (sort_key fst ?c))
        (Finite (3152519739159347 / 4503599627370496)) = Inr 7"
      unfolding l10 by (rule a7)
    have y: "anchor (length (sort_key fst ?c))
        (fadd (Finite (3602879701896397 / 36028797018963968))
           (Finite (3152519739159347 / 4503599627370496))) = Inr 7"
      unfolding l10 sum by (rule a8)
    from three_way_split_at [where sort_values = "sort_key fst", OF c10 x y] show ?thesis
      unfolding s10 by (simp add: slice_to_def slice_from_def slice_between_def slice_bound_def)
  qed
  have fl1: "\<lfloor>3 * (6004799503160661 / 18014398509481984 :: real)\<rfloor> = 0" by simp
  have fl2: "\<lfloor>10 * (7 / 10 + 1 / 10 :: real)\<rfloor> = 8" by simp
  from two third fl1 three d07 d01 fl2 show ?thesis by (intro conjI)
qed

text \<open>
  Claim C4 as amended. For every table of N rows, \<open>N < 2 ^ 53\<close>, whose timestamps convert
  and all fractions in \<open>(0, 1)\<close>, the partitions of \<^verbatim>\<open>two_way_split\<close> and of
  \<^verbatim>\<open>three_way_split\<close> are the consecutive segments of the timestamp-sorted table cut at
  the anchors the source computes in double precision, \<^verbatim>\<open>int(N * train_frac)\<close> and
  \<^verbatim>\<open>int(N * (val_frac + train_frac))\<close>: the truncation of the rounded product, with the sum
  rounded first. The anchors are in order and the first is at most N, so the partitions
  concatenated in order give the sorted table back, their sizes sum to N, together they
  hold every row of the input exactly as often as the input does, and when the rows are
  distinct they are pairwise disjoint.
\<close>

theorem splits_partition:
  assumes ok: "sort_ok sort_values"
    and conv: "to_datetime parse df = Some converted"
    and rows: "length df < 2 ^ 53"
    and fr: "0 < t" "t < 1" "0 < v" "v < 1"
    and dbl: "round_double t = Finite t"
  shows "\<exists>a b.
           anchor (length df) (Finite t) = Inr a \<and>
           anchor (length df) (fadd (Finite v) (Finite t)) = Inr b \<and>
           a = \<lfloor>nearest_double (real (length df) * t)\<rfloor> \<and>
           b = \<lfloor>nearest_double (real (length df) * nearest_double (v + t))\<rfloor> \<and>
           0 \<le> a \<and> a \<le> b \<and> nat a \<le> length df \<and>
           (\<exists>train test.
              snd (two_way_split parse sort_values df (Finite t)) = Inr (train, test) \<and>
              train = take (nat a) (sort_values converted) \<and>
              test = drop (nat a) (sort_values converted) \<and>
              train @ test = sort_values converted \<and>
              length train + length test = length df \<and>
              length train = nat a \<and>
              mset train + mset test = mset converted \<and>
              sorted (map fst (train @ test)) \<and>
              (distinct converted \<longrightarrow> set train \<inter> set test = {})) \<and>
           (\<exists>train validation test.
              snd (three_way_split parse sort_values df (Finite t, Finite v, test_frac)) =
                Inr (train, validation, test) \<and>
              train = take (nat a) (sort_values converted) \<and>
              validation = drop (nat a) (take (nat b) (sort_values converted)) \<and>
              test = drop (nat b) (sort_values converted) \<and>
              train @ validation @ test = sort_values converted \<and>
              length train + length validation + length test = length df \<and>
              length train = nat a \<and>
              mset train + mset validation + mset test = mset converted \<and>
              sorted (map fst (train @ validation @ test)) \<and>
              (distinct converted \<longrightarrow>
                 set train \<inter> set validation = {} \<and> set train \<inter> set test = {} \<and>
                 set validation \<inter> set test = {}))"
proof -
  let ?S = "sort_values converted"
  let ?n = "real (length df)"
  define s where "s = nearest_double (v + t)"
  define a where "a = \<lfloor>nearest_double (?n * t)\<rfloor>"
  define b where "b = \<lfloor>nearest_double (?n * s)\<rfloor>"
  have n: "length ?S = length df"
    using sort_ok_length [OF ok] to_datetime_length [OF conv] by simp
  from ok have ms: "mset ?S = mset converted" and so: "sorted (map fst ?S)"
    by (simp_all add: sort_ok_def)
  have dist: "distinct converted \<Longrightarrow> distinct ?S"
    using ms by (metis mset_eq_imp_distinct_iff)
  have t_dbl: "nearest_double t = t"
    using dbl by (simp add: round_double_def split: if_splits)
  have "nearest_double t \<le> nearest_double (v + t)"
    using fr by (intro nearest_double_mono) simp_all
  then have ts: "t \<le> s" by (simp add: s_def t_dbl)
  have "nearest_double (v + t) \<le> nearest_double 2"
    using fr by (intro nearest_double_mono) simp_all
  then have s2: "s \<le> 2" by (simp add: s_def nearest_double_2)
  have s0: "0 \<le> s" using fr ts by linarith
  have sum: "fadd (Finite v) (Finite t) = Finite s"
    using fr unfolding s_def by (intro fadd_nonneg) simp_all
  have an1: "anchor (length df) (Finite t) = Inr a" and a0: "0 \<le> a"
    using anchor_nonneg [OF rows, of t] fr by (simp_all add: a_def)
  have an2: "anchor (length df) (fadd (Finite v) (Finite t)) = Inr b"
    using anchor_nonneg [OF rows s0 s2] by (simp add: b_def sum)
  have "nearest_double (?n * t) \<le> nearest_double (?n * s)"
    using fr ts by (intro nearest_double_mono mult_left_mono) simp_all
  then have ab: "a \<le> b" unfolding a_def b_def by (rule floor_mono)
  have "nearest_double (?n * t) \<le> nearest_double (?n * 1)"
    using fr by (intro nearest_double_mono mult_left_mono) simp_all
  then have "nearest_double (?n * t) \<le> ?n"
    using nearest_double_of_nat [OF rows] by simp
  then have "a \<le> \<lfloor>?n\<rfloor>" unfolding a_def by (rule floor_mono)
  then have an: "nat a \<le> length df" by simp
  have nab: "nat a \<le> nat b" using ab by simp
  have two: "snd (two_way_split parse sort_values df (Finite t)) =
      Inr (take (nat a) ?S, drop (nat a) ?S)"
    using conv an1 a0 by (simp add: two_way_split_def Let_def n slices_nonneg)
  have b0: "0 \<le> b" using a0 ab by linarith
  have three: "snd (three_way_split parse sort_values df (Finite t, Finite v, test_frac)) =
      Inr (take (nat a) ?S, drop (nat a) (take (nat b) ?S), drop (nat b) ?S)"
    using conv an1 an2 a0 b0 by (simp add: three_way_split_def Let_def n slices_nonneg)
  have la: "length (take (nat a) ?S) = nat a" using an n by simp
  have p2: "take (nat a) ?S @ drop (nat a) ?S = ?S" by simp
  have l2: "length (take (nat a) ?S) + length (drop (nat a) ?S) = length df"
    using n an by simp
  have m2: "mset (take (nat a) ?S) + mset (drop (nat a) ?S) = mset converted"
    using ms by (metis p2 mset_append)
  have d2: "distinct converted \<longrightarrow> set (take (nat a) ?S) \<inter> set (drop (nat a) ?S) = {}"
    using dist by (metis p2 distinct_append)
  have first: "\<exists>train test.
      snd (two_way_split parse sort_values df (Finite t)) = Inr (train, test) \<and>
      train = take (nat a) ?S \<and> test = drop (nat a) ?S \<and>
      train @ test = ?S \<and>
      length train + length test = length df \<and>
      length train = nat a \<and>
      mset train + mset test = mset converted \<and>
      sorted (map fst (train @ test)) \<and>
      (distinct converted \<longrightarrow> set train \<inter> set test = {})"
    using two p2 l2 la m2 d2 so
    by (intro exI [of _ "take (nat a) ?S"] exI [of _ "drop (nat a) ?S"]) simp
  note pf = partition_facts [OF nab, of ?S]
  have p3: "take (nat a) ?S @ drop (nat a) (take (nat b) ?S) @ drop (nat b) ?S = ?S"
    by (rule pf(1))
  have l3: "length (take (nat a) ?S) + length (drop (nat a) (take (nat b) ?S)) +
      length (drop (nat b) ?S) = length df"
    using pf(2) n by simp
  have m3: "mset (take (nat a) ?S) + mset (drop (nat a) (take (nat b) ?S)) +
      mset (drop (nat b) ?S) = mset converted"
    using pf(3) ms by simp
  have d3: "distinct converted \<longrightarrow>
      set (take (nat a) ?S) \<inter> set (drop (nat a) (take (nat b) ?S)) = {} \<and>
      set (take (nat a) ?S) \<inter> set (drop (nat b) ?S) = {} \<and>
      set (drop (nat a) (take (nat b) ?S)) \<inter> set (drop (nat b) ?S) = {}"
    using pf(4) dist by blast
  have s3: "sorted (map fst (take (nat a) ?S @ drop (nat a) (take (nat b) ?S) @ drop (nat b) ?S))"
    using so by (simp only: p3)
  have second: "\<exists>train validation test.
      snd (three_way_split parse sort_values df (Finite t, Finite v, test_frac)) =
        Inr (train, validation, test) \<and>
      train = take (nat a) ?S \<and> validation = drop (nat a) (take (nat b) ?S) \<and>
      test = drop (nat b) ?S \<and>
      train @ validation @ test = ?S \<and>
      length train + length validation + length test = length df \<and>
      length train = nat a \<and>
      mset train + mset validation + mset test = mset converted \<and>
      sorted (map fst (train @ validation @ test)) \<and>
      (distinct converted \<longrightarrow>
         set train \<inter> set validation = {} \<and> set train \<inter> set test = {} \<and>
         set validation \<inter> set test = {})"
    using three p3 l3 la m3 d3 s3
    by (intro exI [of _ "take (nat a) ?S"] exI [of _ "drop (nat a) (take (nat b) ?S)"]
          exI [of _ "drop (nat b) ?S"])
       (simp only: simp_thms)
  have "a = \<lfloor>nearest_double (?n * t)\<rfloor>"
    and "b = \<lfloor>nearest_double (?n * nearest_double (v + t))\<rfloor>"
    by (simp_all add: a_def b_def s_def)
  with an1 an2 a0 ab an first second show ?thesis by blast
qed

theorem splits_partition_witness:
  "sort_ok (sort_key fst :: (int \<times> nat) list \<Rightarrow> (int \<times> nat) list) \<and>
   round_double (8 / 10) = Finite (3602879701896397 / 4503599627370496) \<and>
   snd (two_way_split Some (sort_key fst)
      [(Raw (30::int), 0::nat), (Raw 10, 1), (Raw 20, 2), (Raw 50, 3), (Raw 40, 4),
       (Raw 60, 5), (Raw 80, 6), (Raw 70, 7), (Raw 100, 8), (Raw 90, 9)]
      (Finite (3602879701896397 / 4503599627370496))) =
     Inr ([(10, 1), (20, 2), (30, 0), (40, 4), (50, 3), (60, 5), (70, 7), (80, 6)],
          [(90, 9), (100, 8)]) \<and>
   snd (three_way_split Some (sort_key fst)
      [(Raw (30::int), 0::nat), (Raw 10, 1), (Raw 20, 2), (Raw 50, 3), (Raw 40, 4),
       (Raw 60, 5), (Raw 80, 6), (Raw 70, 7), (Raw 100, 8), (Raw 90, 9)]
      (Finite (3602879701896397 / 4503599627370496),
       Finite (3602879701896397 / 36028797018963968),
       Finite (3602879701896397 / 36028797018963968))) =
     Inr ([(10, 1), (20, 2), (30, 0), (40, 4), (50, 3), (60, 5), (70, 7), (80, 6)],
          [(90, 9)],
          [(100, 8)])"
proof -
  let ?df = "[(Raw (30::int), 0::nat), (Raw 10, 1), (Raw 20, 2), (Raw 50, 3), (Raw 40, 4),
       (Raw 60, 5), (Raw 80, 6), (Raw 70, 7), (Raw 100, 8), (Raw 90, 9)]"
  let ?conv = "[(30::int, 0::nat), (10, 1), (20, 2), (50, 3), (40, 4),
       (60, 5), (80, 6), (70, 7), (100, 8), (90, 9)]"
  let ?t = "3602879701896397 / 4503599627370496 :: real"
  let ?v = "3602879701896397 / 36028797018963968 :: real"
  have conv: "to_datetime Some ?df = Some ?conv" by simp
  have srt: "sort_key fst ?conv =
      [(10, 1), (20, 2), (30, 0), (40, 4), (50, 3), (60, 5), (70, 7), (80, 6), (90, 9), (100, 8)]"
    by simp
  have rows: "length ?df < 2 ^ 53" by simp
  have n: "real (length ?df) = 10" by simp
  have fr: "0 < ?t" "?t < 1" "0 < ?v" "?v < 1" by simp_all
  have dbl: "round_double ?t = Finite ?t"
    by (subst round_double_eval [of "-1"]) (simp_all add: power_int_minus round_half_even_def)
  have lit: "round_double (8 / 10) = Finite ?t"
    by (subst round_double_eval [of "-1"]) (simp_all add: power_int_minus round_half_even_def)
  have a: "\<lfloor>nearest_double (real (length ?df) * ?t)\<rfloor> = 8"
    unfolding n
    by (subst nearest_double_eq [of 3]) (simp_all add: power_int_minus round_half_even_def)
  have s: "nearest_double (?v + ?t) = 8106479329266893 / 9007199254740992"
    by (subst nearest_double_eq [of "-1"]) (simp_all add: power_int_minus round_half_even_def)
  have b: "\<lfloor>nearest_double (real (length ?df) * nearest_double (?v + ?t))\<rfloor> = 9"
    unfolding n s
    by (subst nearest_double_eq [of 3]) (simp_all add: power_int_minus round_half_even_def)
  from splits_partition [OF sort_key_fst_ok conv rows fr dbl, of "Finite ?v"]
  have "snd (two_way_split Some (sort_key fst) ?df (Finite ?t)) =
      Inr (take (nat 8) (sort_key fst ?conv), drop (nat 8) (sort_key fst ?conv)) \<and>
    snd (three_way_split Some (sort_key fst) ?df (Finite ?t, Finite ?v, Finite ?v)) =
      Inr (take (nat 8) (sort_key fst ?conv),
           drop (nat 8) (take (nat 9) (sort_key fst ?conv)),
           drop (nat 9) (sort_key fst ?conv))"
    unfolding a b by blast
  then show ?thesis
    using sort_key_fst_ok lit unfolding srt by simp
qed

text \<open>
  Claim C5 says that a fraction outside \<open>(0, 1)\<close>, or fractions that make a partition of
  negative width, end in a validation error before any slicing. The source checks no
  fraction: \<^verbatim>\<open>two_way_split\<close> with \<open>train_frac = 1.5\<close> returns the whole table as train and
  an empty test set, and \<^verbatim>\<open>three_way_split\<close> with the ratio \<open>(0.5, -0.5, 1)\<close>, whose second
  anchor lies before the first, returns an empty validation set and a test set that
  holds the train row again.
\<close>

theorem splits_accept_any_fraction:
  "snd (two_way_split Some (sort_key fst) [(Raw (1::int), 10::nat), (Raw 2, 20)] (Finite (3 / 2))) =
     Inr ([(1, 10), (2, 20)], []) \<and>
   snd (three_way_split Some (sort_key fst) [(Raw (1::int), 10::nat), (Raw 2, 20)]
         (Finite (1 / 2), Finite (- 1 / 2), Finite 1)) =
     Inr ([(1, 10)], [], [(1, 10), (2, 20)])"
proof -
  have c: "to_datetime Some [(Raw (1::int), 10::nat), (Raw 2, 20)] = Some [(1, 10), (2, 20)]"
    by simp
  have s: "sort_key fst [(1::int, 10::nat), (2, 20)] = [(1, 10), (2, 20)]" by simp
  have l: "length (sort_key fst [(1::int, 10::nat), (2, 20)]) = 2" unfolding s by simp
  have "round_double (real 2 * (3 / 2)) = Finite 3"
    by (subst round_double_eval [of 1]) (simp_all add: power_int_minus round_half_even_def)
  then have a3: "anchor 2 (Finite (3 / 2)) = Inr 3"
    by (subst anchor_eval [of 2 _ 3]) simp_all
  have "round_double (real 2 * (1 / 2)) = Finite 1"
    by (subst round_double_eval [of 0]) (simp_all add: power_int_minus round_half_even_def)
  then have a1: "anchor 2 (Finite (1 / 2)) = Inr 1"
    by (subst anchor_eval [of 2 _ 1]) simp_all
  have z: "round_double 0 = Finite 0" by (simp add: round_double_def nearest_double_0)
  then have sum: "fadd (Finite (- 1 / 2)) (Finite (1 / 2)) = Finite 0" by (simp add: fadd_def)
  from z have a0: "anchor 2 (Finite 0) = Inr 0"
    by (subst anchor_eval [of 2 _ 0]) simp_all
  have two: "snd (two_way_split Some (sort_key fst) [(Raw (1::int), 10::nat), (Raw 2, 20)]
      (Finite (3 / 2))) = Inr ([(1, 10), (2, 20)], [])"
  proof -
    have "anchor (length (sort_key fst [(1::int, 10::nat), (2, 20)])) (Finite (3 / 2)) = Inr 3"
      unfolding l by (rule a3)
    from two_way_split_at [where sort_values = "sort_key fst", OF c this] show ?thesis
      unfolding s by (simp add: slice_to_def slice_from_def slice_bound_def)
  qed
  have three: "snd (three_way_split Some (sort_key fst) [(Raw (1::int), 10::nat), (Raw 2, 20)]
         (Finite (1 / 2), Finite (- 1 / 2), Finite 1)) =
     Inr ([(1, 10)], [], [(1, 10), (2, 20)])"
  proof -
    have x: "anchor (length (sort_key fst [(1::int, 10::nat), (2, 20)])) (Finite (1 / 2)) = Inr 1"
      unfolding l by (rule a1)
    have y: "anchor (length (sort_key fst [(1::int, 10::nat), (2, 20)]))
        (fadd (Finite (- 1 / 2)) (Finite (1 / 2))) = Inr 0"
      unfolding l sum by (rule a0)
    from three_way_split_at [where sort_values = "sort_key fst", OF c x y] show ?thesis
      unfolding s by (simp add: slice_to_def slice_from_def slice_between_def slice_bound_def)
  qed
  from two three show ?thesis by (rule conjI)
qed

text \<open>
  Claim C5 as amended. \<^verbatim>\<open>two_way_split\<close> and \<^verbatim>\<open>three_way_split\<close> do not validate the split
  fractions: for a table of fewer than \<open>2 ^ 53\<close> rows whose timestamps convert and finite
  fractions of magnitude up to \<open>2 ^ 8\<close>, inside \<open>(0, 1)\<close> or not, both anchors are computed
  and the slices at the anchors are returned; the two slices of \<^verbatim>\<open>two_way_split\<close> always
  give the sorted table back.
\<close>

theorem splits_do_not_validate:
  assumes conv: "to_datetime parse df = Some converted"
    and len: "length (sort_values converted) < 2 ^ 53"
    and t8: "\<bar>t\<bar> \<le> 2 ^ 8" and v8: "\<bar>v\<bar> \<le> 2 ^ 8"
  shows "\<exists>a b.
           anchor (length (sort_values converted)) (Finite t) = Inr a \<and>
           anchor (length (sort_values converted)) (fadd (Finite v) (Finite t)) = Inr b \<and>
           snd (two_way_split parse sort_values df (Finite t)) =
             Inr (slice_to (sort_values converted) a, slice_from (sort_values converted) a) \<and>
           slice_to (sort_values converted) a @ slice_from (sort_values converted) a =
             sort_values converted \<and>
           snd (three_way_split parse sort_values df (Finite t, Finite v, test_frac)) =
             Inr (slice_to (sort_values converted) a,
                  slice_between (sort_values converted) a b,
                  slice_from (sort_values converted) b)"
proof -
  let ?S = "sort_values converted"
  have "(2::real) ^ 8 \<le> 2 ^ 900" by simp
  with t8 v8 have t: "\<bar>t\<bar> \<le> 2 ^ 900" and v: "\<bar>v\<bar> \<le> 2 ^ 900" by linarith+
  have "\<bar>t\<bar> \<le> 2 ^ 901" using t by simp
  from anchor_finite [OF len this] obtain a where a: "anchor (length ?S) (Finite t) = Inr a" ..
  from fadd_finite [OF v t] obtain s where s: "fadd (Finite v) (Finite t) = Finite s"
    "\<bar>s\<bar> \<le> 2 ^ 901" by blast
  from anchor_finite [OF len s(2)] obtain b where b: "anchor (length ?S) (Finite s) = Inr b" ..
  have two: "snd (two_way_split parse sort_values df (Finite t)) =
      Inr (slice_to ?S a, slice_from ?S a)"
    using conv a by (simp add: two_way_split_def Let_def)
  have three: "snd (three_way_split parse sort_values df (Finite t, Finite v, test_frac)) =
      Inr (slice_to ?S a, slice_between ?S a b, slice_from ?S b)"
    using conv a b s(1) by (simp add: three_way_split_def Let_def)
  from a b s(1) two three slice_to_from [of ?S a] show ?thesis by simp
qed

theorem splits_do_not_validate_witness:
  "snd (two_way_split Some (sort_key fst) [(Raw (1::int), 10::nat), (Raw 2, 20)] (Finite (- 1 / 2))) =
     Inr ([(1, 10)], [(2, 20)]) \<and>
   snd (three_way_split Some (sort_key fst) [(Raw (1::int), 10::nat), (Raw 2, 20)]
         (Finite (- 1 / 2), Finite 2, Finite 1)) =
     Inr ([(1, 10)], [(2, 20)], [])"
proof -
  let ?df = "[(Raw (1::int), 10::nat), (Raw 2, 20)]"
  let ?S = "sort_key fst [(1::int, 10::nat), (2, 20)]"
  have c: "to_datetime Some ?df = Some [(1, 10), (2, 20)]" by simp
  have s: "?S = [(1, 10), (2, 20)]" by simp
  have l: "length ?S = 2" unfolding s by simp
  have len: "length ?S < 2 ^ 53" unfolding l by simp
  have t: "\<bar>- 1 / 2 :: real\<bar> \<le> 2 ^ 8" and v: "\<bar>2 :: real\<bar> \<le> 2 ^ 8" by simp_all
  have "round_double (real 2 * (- 1 / 2)) = Finite (- 1)"
    using round_double_finite_abs [of "- 1"] nearest_double_minus [of 1]
      nearest_double_of_nat [of 1] by simp
  moreover have "round_double 2 = Finite 2" using round_double_of_nat [of 2] by simp
  moreover have "\<lceil>- 1 :: real\<rceil> = - 1" by (rule ceiling_unique) simp_all
  ultimately have a: "anchor 2 (Finite (- 1 / 2)) = Inr (- 1)"
    by (simp add: anchor_def fmul_def py_int_def)
  have "round_double (2 + - 1 / 2) = Finite (3 / 2)"
    by (subst round_double_eval [of 0]) (simp_all add: power_int_minus round_half_even_def)
  then have sum: "fadd (Finite 2) (Finite (- 1 / 2)) = Finite (3 / 2)" by (simp add: fadd_def)
  have "round_double (real 2 * (3 / 2)) = Finite 3"
    by (subst round_double_eval [of 1]) (simp_all add: power_int_minus round_half_even_def)
  then have b: "anchor 2 (Finite (3 / 2)) = Inr 3"
    by (subst anchor_eval [of 2 _ 3]) simp_all
  from splits_do_not_validate [where sort_values = "sort_key fst", OF c len t v, of "Finite 1"]
  obtain a' b' where
    "anchor (length ?S) (Finite (- 1 / 2)) = Inr a'"
    "anchor (length ?S) (fadd (Finite 2) (Finite (- 1 / 2))) = Inr b'"
    and two: "snd (two_way_split Some (sort_key fst) ?df (Finite (- 1 / 2))) =
      Inr (slice_to ?S a', slice_from ?S a')"
    and three: "snd (three_way_split Some (sort_key fst) ?df (Finite (- 1 / 2), Finite 2, Finite 1)) =
      Inr (slice_to ?S a', slice_between ?S a' b', slice_from ?S b')"
    by blast
  then have "a' = - 1" "b' = 3" unfolding l sum a b by simp_all
  with two three show ?thesis
    unfolding s by (simp add: slice_to_def slice_from_def slice_between_def slice_bound_def)
qed

text \<open>
  Claim C7 says that the caller's table, its timestamp column included, is unchanged
  after the call. The source assigns the converted column into the table it was given:
  a table whose timestamp is still raw holds a datetime there after either call.
\<close>

theorem splits_convert_caller_timestamps:
  "fst (two_way_split Some (sort_key fst) [(Raw (5::int), 10::nat)] (Finite (1/2))) \<noteq> [(Raw 5, 10)] \<and>
   fst (three_way_split Some (sort_key fst) [(Raw (5::int), 10::nat)]
          (Finite (1/2), Finite (1/4), Finite (1/4))) \<noteq> [(Raw 5, 10)]"
  by (simp add: caller_two_way caller_three_way datetime_column_def)

text \<open>
  Claim C7 as amended. After \<^verbatim>\<open>two_way_split\<close> or \<^verbatim>\<open>three_way_split\<close> the caller's table
  has the same rows in the same order and the same values in every column but the
  timestamp column, and both functions leave it in the same state. When every raw
  timestamp parses, the timestamp column is overwritten with its conversion: every cell
  is a datetime afterwards, the one it was or the one its raw value parses to. When some
  raw timestamp does not parse, both calls end in the parsing error and the table is as
  it was. A table whose timestamps are datetimes already is unchanged.
\<close>

theorem splits_change_only_timestamp_column:
  "fst (three_way_split parse sort_values df ratio) =
     fst (two_way_split parse sort_values df train_frac) \<and>
   length (fst (two_way_split parse sort_values df train_frac)) = length df \<and>
   map snd (fst (two_way_split parse sort_values df train_frac)) = map snd df \<and>
   ((\<forall>row \<in> set df. \<forall>raw. fst row = Raw raw \<longrightarrow> parse raw \<noteq> None) \<longrightarrow>
      (\<forall>i < length df.
         (\<exists>t. fst (df ! i) = Datetime t \<and>
              fst (fst (two_way_split parse sort_values df train_frac) ! i) = Datetime t) \<or>
         (\<exists>raw t. fst (df ! i) = Raw raw \<and> parse raw = Some t \<and>
              fst (fst (two_way_split parse sort_values df train_frac) ! i) = Datetime t))) \<and>
   (\<not> (\<forall>row \<in> set df. \<forall>raw. fst row = Raw raw \<longrightarrow> parse raw \<noteq> None) \<longrightarrow>
      fst (two_way_split parse sort_values df train_frac) = df \<and>
      snd (two_way_split parse sort_values df train_frac) = Inl ParserError \<and>
      snd (three_way_split parse sort_values df ratio) = Inl ParserError) \<and>
   ((\<forall>row \<in> set df. \<exists>t. fst row = Datetime t) \<longrightarrow>
      fst (two_way_split parse sort_values df train_frac) = df)"
  unfolding to_datetime_Some_iff [symmetric] caller_two_way caller_three_way
  using caller_table_after [where parse = parse and df = df]
    parse_error_two_way [of parse df sort_values train_frac]
    parse_error_three_way [of parse df sort_values ratio]
  by (intro conjI impI allI) simp_all

theorem splits_change_only_timestamp_column_witness:
  "fst (two_way_split Some (sort_key fst) [(Raw (5::int), 10::nat), (Datetime 3, 11)] (Finite (1/2))) =
     [(Datetime 5, 10), (Datetime 3, 11)] \<and>
   fst (two_way_split Some (sort_key fst) [(Datetime 5 :: int stamp, 10::nat), (Datetime 3, 11)]
          (Finite (1/2))) =
     [(Datetime 5, 10), (Datetime 3, 11)] \<and>
   snd (two_way_split (\<lambda>raw. if raw = 5 then None else Some raw) (sort_key fst)
          [(Raw (5::int), 10::nat), (Datetime 3, 11)] (Finite (1/2))) = Inl ParserError"
proof -
  let ?df = "[(Raw (5::int), 10::nat), (Datetime 3, 11)]"
  let ?dt = "[(Datetime 5 :: int stamp, 10::nat), (Datetime 3, 11)]"
  define after where "after = fst (two_way_split Some (sort_key fst) ?df (Finite (1/2)))"
  note inst = splits_change_only_timestamp_column
    [of Some "sort_key fst" ?df "(Finite (1/2), Finite (1/4), Finite (1/4))" "Finite (1/2)",
     folded after_def]
  have parses: "\<forall>row \<in> set ?df. \<forall>raw. fst row = Raw raw \<longrightarrow> Some raw \<noteq> None" by simp
  from inst have len: "length after = length ?df" and pay: "map snd after = map snd ?df"
    by blast+
  from inst parses have cells: "\<forall>i < length ?df.
         (\<exists>t. fst (?df ! i) = Datetime t \<and> fst (after ! i) = Datetime t) \<or>
         (\<exists>raw t. fst (?df ! i) = Raw raw \<and> Some raw = Some t \<and> fst (after ! i) = Datetime t)"
    by blast
  have "(0::nat) < length ?df" and "(1::nat) < length ?df" by simp_all
  with cells have
    "(\<exists>t. fst (?df ! 0) = Datetime t \<and> fst (after ! 0) = Datetime t) \<or>
     (\<exists>raw t. fst (?df ! 0) = Raw raw \<and> Some raw = Some t \<and> fst (after ! 0) = Datetime t)"
    "(\<exists>t. fst (?df ! 1) = Datetime t \<and> fst (after ! 1) = Datetime t) \<or>
     (\<exists>raw t. fst (?df ! 1) = Raw raw \<and> Some raw = Some t \<and> fst (after ! 1) = Datetime t)"
    by blast+
  then have c: "fst (after ! 0) = Datetime 5" "fst (after ! 1) = Datetime 3" by simp_all
  from len obtain r0 r1 where rs: "after = [r0, r1]"
    by (cases after; cases "tl after") auto
  with pay c have first: "after = [(Datetime 5, 10), (Datetime 3, 11)]"
    by (simp add: prod_eq_iff)
  have "\<forall>row \<in> set ?dt. \<exists>t. fst row = Datetime t" by simp
  with splits_change_only_timestamp_column
    [of Some "sort_key fst" ?dt "(Finite (1/2), Finite (1/4), Finite (1/4))" "Finite (1/2)"]
  have second: "fst (two_way_split Some (sort_key fst) ?dt (Finite (1/2))) = ?dt" by blast
  have "\<not> (\<forall>row \<in> set ?df. \<forall>raw. fst row = Raw raw \<longrightarrow>
      (if raw = 5 then None else Some raw) \<noteq> None)" by simp
  with splits_change_only_timestamp_column
    [of "\<lambda>raw. if raw = 5 then None else Some raw" "sort_key fst" ?df
        "(Finite (1/2), Finite (1/4), Finite (1/4))" "Finite (1/2)"]
  have third: "snd (two_way_split (\<lambda>raw. if raw = 5 then None else Some raw) (sort_key fst)
          ?df (Finite (1/2))) = Inl ParserError" by blast
  from first second third show ?thesis unfolding after_def by simp
qed

end
